theory Spec2Isabelle
  imports Main "HOL-Library.Word" "HOL-Library.Log_Nat" "HOL-Library.Multiset"
begin

unbundle bit_operations_syntax

section \<open>JavaScript numbers\<close>

text \<open>
  The generator is written in JavaScript, whose only numeric type is the IEEE-754 double.
  Two views of a Number occur in the code and both are modelled:

  \<^item> the bitwise operators (\<open>&\<close>, \<open>|\<close>, \<open>^\<close>, \<open><<\<close>, \<open>>>>\<close>) first reduce their
    operands to 32 bits (ToInt32, ToUint32) and work on the bit pattern: a \<open>32 word\<close>;
  \<^item> the arithmetic operators (\<open>+\<close>, \<open>-\<close>, \<open>*\<close>) compute the exact result and round it to
    the nearest double, ties to the even significand.

  Every arithmetic value that the modelled methods compute from integer arguments is an
  integer or a multiple of \<open>2^-32\<close> (the raw 32-bit draw divided by \<open>2^32\<close>, times an
  integer, plus an integer), far away from the overflow and the subnormal range. Such a
  value is a double exactly when its numerator has at most 53 significant bits, so
  rounding to a double is rounding an integer to 53 significant bits: \<open>round53\<close>.
\<close>

type_synonym u32 = "32 word"

definition ToUint32 :: "int \<Rightarrow> u32" where
  "ToUint32 x = word_of_int x"

definition ToInt32 :: "int \<Rightarrow> int" where
  "ToInt32 x = sint (word_of_int x :: u32)"

text \<open>\<open>x << n\<close> on Numbers: ToInt32 of the left operand, shifted, read back signed.\<close>

definition js_shl :: "int \<Rightarrow> nat \<Rightarrow> int" where
  "js_shl x n = sint (push_bit n (word_of_int x :: u32))"

definition round53 :: "int \<Rightarrow> int" where
  "round53 x =
     (if \<bar>x\<bar> < 2 ^ 53 then x
      else
        let s = nat (bitlen \<bar>x\<bar> - 53);
            q = \<bar>x\<bar> div 2 ^ s;
            r = \<bar>x\<bar> mod 2 ^ s;
            h = 2 ^ (s - 1);
            q' = (if h < r \<or> (r = h \<and> odd q) then q + 1 else q)
        in sgn x * (q' * 2 ^ s))"

text \<open>Integer-valued Numbers: \<open>a + b\<close>, \<open>a - b\<close>, \<open>a * b\<close>.\<close>

definition js_add :: "int \<Rightarrow> int \<Rightarrow> int" where
  "js_add a b = round53 (a + b)"

definition js_sub :: "int \<Rightarrow> int \<Rightarrow> int" where
  "js_sub a b = round53 (a - b)"

definition js_mul :: "int \<Rightarrow> int \<Rightarrow> int" where
  "js_mul a b = round53 (a * b)"

text \<open>
  A \<open>frac32\<close> is a Number that is a multiple of \<open>2^-32\<close>, given by its numerator:
  \<open>n\<close> stands for \<open>n / 2^32\<close>. Multiplying it by an integer, adding an integer to it,
  taking its floor and comparing it with an integer are the operations the code uses.
\<close>

type_synonym frac32 = int

definition frac_times :: "frac32 \<Rightarrow> int \<Rightarrow> frac32" where
  "frac_times f k = round53 (f * k)"

definition frac_plus :: "frac32 \<Rightarrow> int \<Rightarrow> frac32" where
  "frac_plus f k = round53 (f + k * 2 ^ 32)"

definition Math_floor :: "frac32 \<Rightarrow> int" where
  "Math_floor f = f div 2 ^ 32"

definition frac_less_int :: "frac32 \<Rightarrow> int \<Rightarrow> bool" where
  "frac_less_int f k \<longleftrightarrow> f < k * 2 ^ 32"

definition frac_le_int :: "frac32 \<Rightarrow> int \<Rightarrow> bool" where
  "frac_le_int f k \<longleftrightarrow> f \<le> k * 2 ^ 32"

section \<open>The Mersenne Twister\<close>

text \<open>
  The state vector \<open>mt\<close> holds 624 Numbers that the code only ever reads through bitwise
  operators, so each entry is modelled by its 32-bit pattern; \<open>mti\<close> is the cursor.
\<close>

record MersenneTwister =
  mt :: "u32 list"
  mti :: nat

definition N :: nat where "N = 624"
definition M :: nat where "M = 397"
definition MATRIX_A :: u32 where "MATRIX_A = 0x9908b0df"
definition UPPER_MASK :: u32 where "UPPER_MASK = 0x80000000"
definition LOWER_MASK :: u32 where "LOWER_MASK = 0x7fffffff"

text \<open>
  One round of the seeding loop, with the arithmetic of the source: the multiplication by
  1812433253 is split into two 16-bit halves so that each product is exact in a double,
  the upper product is cut to 32 bits by \<open><< 16\<close>, the cursor is added, and \<open>>>>= 0\<close>
  reduces the sum to an unsigned 32-bit value.
\<close>

definition init_genrand_step :: "u32 \<Rightarrow> nat \<Rightarrow> u32" where
  "init_genrand_step prev i =
     (let s = prev XOR drop_bit 30 prev;
          hi = uint (drop_bit 16 (s AND 0xffff0000));
          lo = uint (s AND 0x0000ffff)
      in ToUint32 (js_add (js_add (js_shl (js_mul hi 1812433253) 16) (js_mul lo 1812433253)) (int i)))"

fun init_genrand_loop :: "nat \<Rightarrow> nat \<Rightarrow> u32 list \<Rightarrow> u32 list" where
  "init_genrand_loop 0 i xs = xs"
| "init_genrand_loop (Suc k) i xs =
     init_genrand_loop k (Suc i) (xs[i := init_genrand_step (xs ! (i - 1)) i])"

definition init_genrand :: "int \<Rightarrow> MersenneTwister" where
  "init_genrand s =
     \<lparr>mt = init_genrand_loop (N - 1) 1 ((replicate N 0)[0 := ToUint32 s]), mti = N\<rparr>"

text \<open>
  The constructor: an undefined seed is replaced by a value taken from \<open>Math.random\<close>
  (the parameter \<open>fallback\<close> stands for \<open>Math.floor(Math.random()*Math.pow(10,13))\<close>),
  then the state vector is filled by \<open>init_genrand\<close>. The entries of the fresh array that
  the seeding loop has not yet written are never read; they are modelled as 0.
\<close>

definition new_MersenneTwister :: "int \<Rightarrow> int option \<Rightarrow> MersenneTwister" where
  "new_MersenneTwister fallback seed =
     init_genrand (case seed of None \<Rightarrow> fallback | Some s \<Rightarrow> s)"

definition mag01 :: "u32 \<Rightarrow> u32" where
  "mag01 x = (if x = 0 then 0x0 else MATRIX_A)"

definition twist_at :: "nat \<Rightarrow> nat \<Rightarrow> nat \<Rightarrow> u32 list \<Rightarrow> u32 list" where
  "twist_at kk nxt src xs =
     (let y = (xs ! kk AND UPPER_MASK) OR (xs ! nxt AND LOWER_MASK)
      in xs[kk := xs ! src XOR drop_bit 1 y XOR mag01 (y AND 0x1)])"

text \<open>The first loop runs \<open>kk\<close> over \<open>0 ..< N - M\<close>, the second over \<open>N - M ..< N - 1\<close>.\<close>

fun twist_loop1 :: "nat \<Rightarrow> nat \<Rightarrow> u32 list \<Rightarrow> u32 list" where
  "twist_loop1 0 kk xs = xs"
| "twist_loop1 (Suc n) kk xs = twist_loop1 n (Suc kk) (twist_at kk (kk + 1) (kk + M) xs)"

fun twist_loop2 :: "nat \<Rightarrow> nat \<Rightarrow> u32 list \<Rightarrow> u32 list" where
  "twist_loop2 0 kk xs = xs"
| "twist_loop2 (Suc n) kk xs = twist_loop2 n (Suc kk) (twist_at kk (kk + 1) (kk + M - N) xs)"

definition twist :: "u32 list \<Rightarrow> u32 list" where
  "twist xs =
     twist_at (N - 1) 0 (M - 1)
       (twist_loop2 (M - 1) (N - M) (twist_loop1 (N - M) 0 xs))"

definition tempering :: "u32 \<Rightarrow> u32" where
  "tempering y0 =
     (let y1 = y0 XOR drop_bit 11 y0;
          y2 = y1 XOR (push_bit 7 y1 AND 0x9d2c5680);
          y3 = y2 XOR (push_bit 15 y2 AND 0xefc60000)
      in y3 XOR drop_bit 18 y3)"

definition genrand_int32 :: "MersenneTwister \<Rightarrow> u32 \<times> MersenneTwister" where
  "genrand_int32 g =
     (let g1 = (if N \<le> mti g
                then \<lparr>mt = twist (mt (if mti g = N + 1 then init_genrand 5489 else g)), mti = 0\<rparr>
                else g)
      in (tempering (mt g1 ! mti g1), g1\<lparr>mti := mti g1 + 1\<rparr>))"

text \<open>
  \<open>random\<close> multiplies the draw by \<open>1.0 / 4294967296.0\<close>: an exact product, the
  \<open>frac32\<close> whose numerator is the draw.
\<close>

definition mt_random :: "MersenneTwister \<Rightarrow> frac32 \<times> MersenneTwister" where
  "mt_random g = (let (y, g') = genrand_int32 g in (uint y, g'))"

section \<open>The Chance instance\<close>

text \<open>
  Strings are modelled as \<open>string\<close>; \<open>charCodeAt\<close> is \<open>of_char\<close>, so the model covers
  the strings whose code units are below 256.

  A seed component is a string or a Number. The constructor leaves \<open>this.seed\<close>
  undefined when it gets no argument and otherwise adds the components up, a string
  counting as its \<open>seedling\<close>. A function passed as the first argument replaces the
  generator altogether; that variant is outside the model. The field \<open>twister\<close> is
  \<open>this.mt\<close>, and \<open>random\<close> is the \<open>this.random\<close> that the constructor installs.
\<close>

datatype seed_component = SeedString string | SeedNumber int

text \<open>The inner loop over \<open>k\<close>: the hash of a string, starting from \<open>hash = 0\<close>.\<close>

fun string_hash :: "int \<Rightarrow> string \<Rightarrow> int" where
  "string_hash hash [] = hash"
| "string_hash hash (c # cs) =
     string_hash (js_sub (js_add (js_add (of_char c) (js_shl hash 6)) (js_shl hash 16)) hash) cs"

text \<open>The loop over \<open>j\<close>: once for every character, the whole hash is added to the seedling.\<close>

fun seedling_loop :: "nat \<Rightarrow> string \<Rightarrow> int \<Rightarrow> int" where
  "seedling_loop 0 str seedling = seedling"
| "seedling_loop (Suc j) str seedling = seedling_loop j str (js_add seedling (string_hash 0 str))"

definition seedling_of :: "seed_component \<Rightarrow> int" where
  "seedling_of a =
     (case a of
        SeedString str \<Rightarrow> seedling_loop (length str) str 0
      | SeedNumber x \<Rightarrow> x)"

text \<open>The loop over the arguments, \<open>i\<close> counting up from 0 and \<open>n\<close> being \<open>arguments.length\<close>.\<close>

fun seed_loop :: "nat \<Rightarrow> nat \<Rightarrow> seed_component list \<Rightarrow> int \<Rightarrow> int" where
  "seed_loop n i [] seed = seed"
| "seed_loop n i (a # as) seed =
     seed_loop n (Suc i) as (js_add seed (js_mul (int n - int i) (seedling_of a)))"

definition combine_seed :: "seed_component list \<Rightarrow> int option" where
  "combine_seed args = (if args = [] then None else Some (seed_loop (length args) 0 args 0))"

record Chance =
  seed :: "int option"
  twister :: MersenneTwister

definition new_Chance :: "int \<Rightarrow> seed_component list \<Rightarrow> Chance" where
  "new_Chance fallback args =
     (let s = combine_seed args in \<lparr>seed = s, twister = new_MersenneTwister fallback s\<rparr>)"

definition random :: "Chance \<Rightarrow> frac32 \<times> Chance" where
  "random c = (let (r, g) = mt_random (twister c) in (r, c\<lparr>twister := g\<rparr>))"

section \<open>Errors and options\<close>

datatype error = RangeError | TypeError

definition MAX_INT :: int where "MAX_INT = 9007199254740992"
definition MIN_INT :: int where "MIN_INT = - MAX_INT"
definition NUMBERS :: string where "NUMBERS = ''0123456789''"
definition CHARS_LOWER :: string where "CHARS_LOWER = ''abcdefghijklmnopqrstuvwxyz''"
definition CHARS_UPPER :: string where "CHARS_UPPER = ''ABCDEFGHIJKLMNOPQRSTUVWXYZ''"

text \<open>
  An options object is a record of optional fields; \<open>None\<close> is a field that is
  \<open>undefined\<close>, which \<open>initOptions\<close> replaces by the default. The bounds are
  integer-valued Numbers.
\<close>

record range_options =
  opt_min :: "int option"
  opt_max :: "int option"

datatype casing = Lower | Upper | AnyCase

record char_options =
  pool :: "string option"
  alpha :: bool
  symbols :: bool
  casing :: casing

record string_options = char_options +
  str_length :: "int option"

section \<open>Basics\<close>

definition chance_bool :: "int option \<Rightarrow> Chance \<Rightarrow> (error + bool) \<times> Chance" where
  "chance_bool likelihood c =
     (let l = (case likelihood of None \<Rightarrow> 50 | Some v \<Rightarrow> v)
      in if l < 0 \<or> 100 < l then (Inl RangeError, c)
         else let (r, c') = random c in (Inr (frac_less_int (frac_times r 100) l), c'))"

definition integer :: "range_options \<Rightarrow> Chance \<Rightarrow> (error + int) \<times> Chance" where
  "integer options c =
     (let mn = (case opt_min options of None \<Rightarrow> MIN_INT | Some v \<Rightarrow> v);
          mx = (case opt_max options of None \<Rightarrow> MAX_INT | Some v \<Rightarrow> v)
      in if mx < mn then (Inl RangeError, c)
         else let (r, c') = random c
              in (Inr (Math_floor (frac_plus (frac_times r (js_add (js_sub mx mn) 1)) mn)), c'))"

definition natural :: "range_options \<Rightarrow> Chance \<Rightarrow> (error + int) \<times> Chance" where
  "natural options c =
     (let mn = (case opt_min options of None \<Rightarrow> 0 | Some v \<Rightarrow> v);
          mx = (case opt_max options of None \<Rightarrow> MAX_INT | Some v \<Rightarrow> v)
      in if mn < 0 then (Inl RangeError, c)
         else integer \<lparr>opt_min = Some mn, opt_max = Some mx\<rparr> c)"

text \<open>\<open>pool.charAt(i)\<close>: the empty string outside the pool.\<close>

definition charAt :: "string \<Rightarrow> int \<Rightarrow> string" where
  "charAt s i = (if 0 \<le> i \<and> i < int (length s) then [s ! nat i] else [])"

definition character :: "'a char_options_scheme \<Rightarrow> Chance \<Rightarrow> (error + string) \<times> Chance" where
  "character options c =
     (if alpha options \<and> symbols options then (Inl RangeError, c)
      else
        let syms = ''!@#$%^&*()[]'';
            letters = (case casing options of
                         Lower \<Rightarrow> CHARS_LOWER
                       | Upper \<Rightarrow> CHARS_UPPER
                       | AnyCase \<Rightarrow> CHARS_LOWER @ CHARS_UPPER);
            dflt = (if alpha options then letters
                    else if symbols options then syms
                    else letters @ NUMBERS @ syms);
            p = (case pool options of
                   None \<Rightarrow> dflt
                 | Some q \<Rightarrow> if q \<noteq> [] then q else dflt)
        in case natural \<lparr>opt_min = None, opt_max = Some (int (length p) - 1)\<rparr> c of
             (Inl e, c') \<Rightarrow> (Inl e, c')
           | (Inr i, c') \<Rightarrow> (Inr (charAt p i), c'))"

text \<open>
  \<open>n(fn, n, ...)\<close>: the count defaults to 1, a negative count is a no-op, and an exception
  of \<open>fn\<close> ends the loop. The count is an integer (a fractional count never reaches 0 in
  the source's \<open>i--\<close> loop).
\<close>

fun n_loop :: "(Chance \<Rightarrow> (error + 'a) \<times> Chance) \<Rightarrow> nat \<Rightarrow> 'a list \<Rightarrow> Chance
    \<Rightarrow> (error + 'a list) \<times> Chance" where
  "n_loop fn 0 arr c = (Inr arr, c)"
| "n_loop fn (Suc i) arr c =
     (case fn c of
        (Inl e, c') \<Rightarrow> (Inl e, c')
      | (Inr x, c') \<Rightarrow> n_loop fn i (arr @ [x]) c')"

definition chance_n :: "(Chance \<Rightarrow> (error + 'a) \<times> Chance) \<Rightarrow> int option \<Rightarrow> Chance
    \<Rightarrow> (error + 'a list) \<times> Chance" where
  "chance_n fn cnt c = n_loop fn (nat (max 0 (case cnt of None \<Rightarrow> 1 | Some k \<Rightarrow> k))) [] c"

text \<open>
  \<open>string\<close>: the default length is an argument of \<open>initOptions\<close>, so it is drawn before
  the options are looked at.
\<close>

definition chance_string :: "string_options \<Rightarrow> Chance \<Rightarrow> (error + string) \<times> Chance" where
  "chance_string options c =
     (case natural \<lparr>opt_min = Some 5, opt_max = Some 20\<rparr> c of
        (Inl e, c1) \<Rightarrow> (Inl e, c1)
      | (Inr dflt, c1) \<Rightarrow>
          let len = (case str_length options of None \<Rightarrow> dflt | Some l \<Rightarrow> l)
          in if len < 0 then (Inl RangeError, c1)
             else (case chance_n (character options) (Some len) c1 of
                     (Inl e, c2) \<Rightarrow> (Inl e, c2)
                   | (Inr text, c2) \<Rightarrow> (Inr (concat text), c2)))"

section \<open>Arrays and objects in the store\<close>

text \<open>
  Arrays and objects are passed by reference, and two claims are about what a method does
  to an array it is handed. So they live in a store: a value is a primitive or the address
  of an object, and an object is an array of values or a list of named properties in
  insertion order. Allocation appends to the store; nothing is ever freed.
\<close>

type_synonym addr = nat

datatype jsval = Undefined | Null | Bool bool | Num int | Str string | Ref addr

datatype jsobj = Array "jsval list" | Object "(string \<times> jsval) list"

type_synonym heap = "jsobj list"

definition alloc :: "heap \<Rightarrow> jsobj \<Rightarrow> addr \<times> heap" where
  "alloc h ob = (length h, h @ [ob])"

definition heap_array :: "heap \<Rightarrow> addr \<Rightarrow> jsval list option" where
  "heap_array h a =
     (if a < length h then (case h ! a of Array xs \<Rightarrow> Some xs | Object kvs \<Rightarrow> None) else None)"

text \<open>\<open>xs[j]\<close>, \<open>xs[i] = v\<close> (which extends the array) and \<open>xs.splice(start, 1)\<close>.\<close>

definition js_nth :: "jsval list \<Rightarrow> int \<Rightarrow> jsval" where
  "js_nth xs j = (if 0 \<le> j \<and> j < int (length xs) then xs ! nat j else Undefined)"

definition js_set :: "jsval list \<Rightarrow> nat \<Rightarrow> jsval \<Rightarrow> jsval list" where
  "js_set xs i v =
     (if i < length xs then xs[i := v] else xs @ replicate (i - length xs) Undefined @ [v])"

definition splice_start :: "nat \<Rightarrow> int \<Rightarrow> nat" where
  "splice_start len start =
     (if start < 0 then nat (max (int len + start) 0) else min (nat start) len)"

definition js_splice1 :: "'a list \<Rightarrow> int \<Rightarrow> 'a list" where
  "js_splice1 xs start = (let s = splice_start (length xs) start in take s xs @ drop (Suc s) xs)"

definition update_array :: "heap \<Rightarrow> addr \<Rightarrow> (jsval list \<Rightarrow> jsval list) \<Rightarrow> heap" where
  "update_array h a f =
     (case heap_array h a of None \<Rightarrow> h | Some xs \<Rightarrow> h[a := Array (f xs)])"

definition array_length :: "heap \<Rightarrow> addr \<Rightarrow> int" where
  "array_length h a = (case heap_array h a of None \<Rightarrow> 0 | Some xs \<Rightarrow> int (length xs))"

definition array_load :: "heap \<Rightarrow> addr \<Rightarrow> int \<Rightarrow> jsval" where
  "array_load h a j = (case heap_array h a of None \<Rightarrow> Undefined | Some xs \<Rightarrow> js_nth xs j)"

section \<open>Helpers\<close>

text \<open>
  \<open>shuffle\<close>, \<open>pickone\<close> and \<open>pickset\<close> are modelled on arrays. Handed an object that
  is not an array, \<open>shuffle\<close> throws a TypeError (\<open>arr.slice\<close> is not a function);
  \<open>pickone\<close> and \<open>pickset\<close> would go by whatever \<open>length\<close> property the object has,
  which is not modelled: the model answers TypeError there as well.

  \<open>shuffle\<close>: \<open>old_array\<close> is a fresh copy of \<open>arr\<close>, \<open>new_array\<close> a fresh empty array;
  the loop runs \<open>length\<close> times, \<open>i\<close> counting up.
\<close>

fun shuffle_loop :: "nat \<Rightarrow> nat \<Rightarrow> addr \<Rightarrow> addr \<Rightarrow> heap \<Rightarrow> Chance
    \<Rightarrow> (error + jsval) \<times> heap \<times> Chance" where
  "shuffle_loop 0 i old_array new_array h c = (Inr (Ref new_array), h, c)"
| "shuffle_loop (Suc k) i old_array new_array h c =
     (case natural \<lparr>opt_min = None, opt_max = Some (array_length h old_array - 1)\<rparr> c of
        (Inl e, c') \<Rightarrow> (Inl e, h, c')
      | (Inr j, c') \<Rightarrow>
          let h1 = update_array h new_array (\<lambda>xs. js_set xs i (array_load h old_array j));
              h2 = update_array h1 old_array (\<lambda>xs. js_splice1 xs j)
          in shuffle_loop k (Suc i) old_array new_array h2 c')"

definition shuffle :: "addr \<Rightarrow> heap \<Rightarrow> Chance \<Rightarrow> (error + jsval) \<times> heap \<times> Chance" where
  "shuffle arr h c =
     (case heap_array h arr of
        None \<Rightarrow> (Inl TypeError, h, c)
      | Some xs \<Rightarrow>
          let (old_array, h1) = alloc h (Array xs);
              (new_array, h2) = alloc h1 (Array [])
          in shuffle_loop (length xs) 0 old_array new_array h2 c)"

definition pickone :: "addr \<Rightarrow> heap \<Rightarrow> Chance \<Rightarrow> (error + jsval) \<times> heap \<times> Chance" where
  "pickone arr h c =
     (case heap_array h arr of
        None \<Rightarrow> (Inl TypeError, h, c)
      | Some xs \<Rightarrow>
          if length xs = 0 then (Inl RangeError, h, c)
          else (case natural \<lparr>opt_min = None, opt_max = Some (int (length xs) - 1)\<rparr> c of
                  (Inl e, c') \<Rightarrow> (Inl e, h, c')
                | (Inr j, c') \<Rightarrow> (Inr (js_nth xs j), h, c')))"

text \<open>
  \<open>pickset(arr, count)\<close>; \<open>count\<close> is an integer or \<open>undefined\<close>. The test
  \<open>count === 0\<close> comes before anything is read from \<open>arr\<close>.
\<close>

definition pickset :: "addr \<Rightarrow> int option \<Rightarrow> heap \<Rightarrow> Chance \<Rightarrow> (error + jsval) \<times> heap \<times> Chance" where
  "pickset arr cnt h c =
     (if cnt = Some 0 then (let (r, h') = alloc h (Array []) in (Inr (Ref r), h', c))
      else
        case heap_array h arr of
          None \<Rightarrow> (Inl TypeError, h, c)
        | Some xs \<Rightarrow>
            if length xs = 0 then (Inl RangeError, h, c)
            else if (case cnt of None \<Rightarrow> False | Some k \<Rightarrow> k < 0) then (Inl RangeError, h, c)
            else if cnt = None \<or> cnt = Some 1 then
              (case pickone arr h c of
                 (Inl e, h', c') \<Rightarrow> (Inl e, h', c')
               | (Inr v, h', c') \<Rightarrow> (let (r, h'') = alloc h' (Array [v]) in (Inr (Ref r), h'', c')))
            else
              (case shuffle arr h c of
                 (Inl e, h', c') \<Rightarrow> (Inl e, h', c')
               | (Inr v, h', c') \<Rightarrow>
                   (case v of
                      Ref s \<Rightarrow>
                        (case heap_array h' s of
                           None \<Rightarrow> (Inl TypeError, h', c')
                         | Some ys \<Rightarrow>
                             (let (r, h'') = alloc h' (Array (take (nat (case cnt of None \<Rightarrow> 0 | Some k \<Rightarrow> k)) ys))
                              in (Inr (Ref r), h'', c')))
                    | _ \<Rightarrow> (Inl TypeError, h', c'))))"

text \<open>
  \<open>weighted(arr, weights, trim)\<close> on an array of any element type and integer weights.
  The method can change both arrays (\<open>trim\<close>), so it returns them as they are after the
  call. The element \<open>arr[chosenIdx]\<close> is \<open>undefined\<close> (\<open>None\<close>) outside the array.
\<close>

fun weighted_sum :: "int list \<Rightarrow> int \<Rightarrow> int" where
  "weighted_sum [] acc = acc"
| "weighted_sum (val # rest) acc = weighted_sum rest (if 0 < val then js_add acc val else acc)"

text \<open>
  The scan: \<open>weightIndex\<close> counts up, \<open>total\<close> adds every weight, and the result is
  \<open>chosenIdx\<close>, still \<open>undefined\<close> when there is no weight at all.
\<close>

fun weighted_scan :: "frac32 \<Rightarrow> int list \<Rightarrow> nat \<Rightarrow> int \<Rightarrow> int \<Rightarrow> int option" where
  "weighted_scan selected [] weightIndex tot lastGoodIdx = None"
| "weighted_scan selected (val # rest) weightIndex tot lastGoodIdx =
     (let total' = js_add tot val
      in if 0 < val \<and> frac_le_int selected total' then Some (int weightIndex)
         else
           let lastGoodIdx' = (if 0 < val then int weightIndex else lastGoodIdx)
           in if rest = [] then Some lastGoodIdx'
              else weighted_scan selected rest (Suc weightIndex) total' lastGoodIdx')"

definition weighted :: "'a list \<Rightarrow> int list \<Rightarrow> bool \<Rightarrow> Chance
    \<Rightarrow> (error + 'a option) \<times> 'a list \<times> int list \<times> Chance" where
  "weighted arr weights trim c =
     (if length arr \<noteq> length weights then (Inl RangeError, arr, weights, c)
      else
        let wsum = weighted_sum weights 0
        in if wsum = 0 then (Inl RangeError, arr, weights, c)
           else
             let (r, c') = random c;
                 selected = frac_times r wsum;
                 chosenIdx = weighted_scan selected weights 0 0 (- 1);
                 chosen = (case chosenIdx of
                             None \<Rightarrow> None
                           | Some i \<Rightarrow> if 0 \<le> i \<and> i < int (length arr) then Some (arr ! nat i) else None);
                 start = (case chosenIdx of None \<Rightarrow> 0 | Some i \<Rightarrow> i)
             in if trim then (Inr chosen, js_splice1 arr start, js_splice1 weights start, c')
                else (Inr chosen, arr, weights, c'))"

text \<open>
  \<open>pick(arr)\<close> without a count, as \<open>cc_type\<close> calls it on a table of records:
  \<open>arr[i]\<close> is \<open>undefined\<close> (\<open>None\<close>) outside the array.
\<close>

definition pick :: "'a list \<Rightarrow> Chance \<Rightarrow> (error + 'a option) \<times> Chance" where
  "pick arr c =
     (if length arr = 0 then (Inl RangeError, c)
      else (case natural \<lparr>opt_min = None, opt_max = Some (int (length arr) - 1)\<rparr> c of
              (Inl e, c') \<Rightarrow> (Inl e, c')
            | (Inr j, c') \<Rightarrow>
                (Inr (if 0 \<le> j \<and> j < int (length arr) then Some (arr ! nat j) else None), c')))"

section \<open>Numbers and decimal strings\<close>

text \<open>
  \<open>toString\<close> of an integer-valued Number and unary \<open>+\<close> on a string of decimal digits.
  The decimal expansion below is what \<open>toString\<close> prints for integers of magnitude up to
  \<open>2^53\<close>; the methods modelled here stay far below that. Unary \<open>+\<close> rounds the value
  of the digits to a double.
\<close>

definition digit_char :: "nat \<Rightarrow> char" where
  "digit_char d = char_of (48 + d)"

definition digit_value :: "char \<Rightarrow> int" where
  "digit_value ch = int (of_char ch) - 48"

fun nat_digits :: "nat \<Rightarrow> string" where
  "nat_digits k = (if k < 10 then [digit_char k] else nat_digits (k div 10) @ [digit_char (k mod 10)])"

declare nat_digits.simps [simp del]

definition Number_toString :: "int \<Rightarrow> string" where
  "Number_toString x = (if x < 0 then CHR ''-'' # nat_digits (nat (- x)) else nat_digits (nat x))"



section \<open>Time\<close>

text \<open>\<open>year\<close>; \<open>currentYear\<close> stands for \<open>new Date().getFullYear()\<close>.\<close>

definition year :: "int \<Rightarrow> range_options \<Rightarrow> Chance \<Rightarrow> (error + string) \<times> Chance" where
  "year currentYear options c =
     (let mn = (case opt_min options of None \<Rightarrow> currentYear | Some v \<Rightarrow> v);
          mx = (case opt_max options of None \<Rightarrow> js_add mn 100 | Some v \<Rightarrow> v)
      in case natural \<lparr>opt_min = Some mn, opt_max = Some mx\<rparr> c of
           (Inl e, c') \<Rightarrow> (Inl e, c')
         | (Inr v, c') \<Rightarrow> (Inr (Number_toString v), c'))"

section \<open>Finance\<close>

text \<open>
  \<open>luhn_calculate\<close> on the string that \<open>num.toString()\<close> gives. The sum is at most nine
  times the number of digits, so the additions are exact.
\<close>

fun luhn_loop :: "nat \<Rightarrow> string \<Rightarrow> int \<Rightarrow> int" where
  "luhn_loop i [] acc = acc"
| "luhn_loop i (d # digits) acc =
     (let digit = digit_value d;
          digit' = (if i mod 2 = 0
                    then (let dd = digit * 2 in if 9 < dd then dd - 9 else dd)
                    else digit)
      in luhn_loop (Suc i) digits (acc + digit'))"

definition luhn_calculate :: "string \<Rightarrow> int" where
  "luhn_calculate str = (luhn_loop 0 (rev str) 0 * 9) mod 10"


record cc_type_rec =
  name :: string
  short_name :: string
  prefix :: string
  card_length :: int


text \<open>
  \<open>cc_type\<close> with \<open>raw: true\<close>, as \<open>cc\<close> calls it, over a table \<open>types\<close>: the record
  whose name or short name is the one asked for, or a random one. \<open>None\<close> is
  \<open>undefined\<close>.
\<close>

definition cc_type :: "cc_type_rec list \<Rightarrow> string option \<Rightarrow> Chance
    \<Rightarrow> (error + cc_type_rec option) \<times> Chance" where
  "cc_type types nm c =
     (if nm \<noteq> None \<and> nm \<noteq> Some []
      then (case find (\<lambda>t. Some (name t) = nm \<or> Some (short_name t) = nm) types of
              None \<Rightarrow> (Inl RangeError, c)
            | Some t \<Rightarrow> (Inr (Some t), c))
      else pick types c)"

text \<open>
  \<open>cc\<close>: the prefix, then \<open>length - prefix.length - 1\<close> digits drawn by \<open>integer\<close>, then
  the Luhn digit of what has been written; \<open>join\<close> prints every Number.
\<close>

definition cc_from :: "cc_type_rec list \<Rightarrow> string option \<Rightarrow> Chance \<Rightarrow> (error + string) \<times> Chance" where
  "cc_from types tp c =
     (case cc_type types tp c of
        (Inl e, c1) \<Rightarrow> (Inl e, c1)
      | (Inr None, c1) \<Rightarrow> (Inl TypeError, c1)
      | (Inr (Some t), c1) \<Rightarrow>
          let to_generate = card_length t - int (length (prefix t)) - 1
          in (case chance_n (integer \<lparr>opt_min = Some 0, opt_max = Some 9\<rparr>) (Some to_generate) c1 of
                (Inl e, c2) \<Rightarrow> (Inl e, c2)
              | (Inr digits, c2) \<Rightarrow>
                  let number = prefix t @ concat (map Number_toString digits)
                  in (Inr (number @ Number_toString (luhn_calculate number)), c2)))"


section \<open>Keyed data tables\<close>

text \<open>
  \<open>data\<close> binds every table name to its array or object; a missing name reads as
  \<open>undefined\<close> (\<open>None\<close>). Only the names that \<open>data\<close> itself binds are modelled, not
  those it inherits from \<open>Object.prototype\<close> (\<open>get("toString")\<close> finds a function and
  copies it to an empty object). \<open>copyObject(source)\<close> is modelled as \<open>get\<close> calls it,
  without a target: the target is a fresh array of the source's length or a fresh empty
  object, filled by \<open>_copyArray\<close> or \<open>_copyObject\<close>.
\<close>

type_synonym tables = "(string \<times> addr) list"

definition truthy :: "jsval \<Rightarrow> bool" where
  "truthy v =
     (case v of
        Undefined \<Rightarrow> False
      | Null \<Rightarrow> False
      | Bool b \<Rightarrow> b
      | Num x \<Rightarrow> x \<noteq> 0
      | Str str \<Rightarrow> str \<noteq> []
      | Ref a \<Rightarrow> True)"

fun prop_get :: "(string \<times> jsval) list \<Rightarrow> string \<Rightarrow> jsval" where
  "prop_get [] key = Undefined"
| "prop_get ((k, v) # kvs) key = (if k = key then v else prop_get kvs key)"

fun prop_set :: "(string \<times> jsval) list \<Rightarrow> string \<Rightarrow> jsval \<Rightarrow> (string \<times> jsval) list" where
  "prop_set [] key v = [(key, v)]"
| "prop_set ((k, w) # kvs) key v = (if k = key then (k, v) # kvs else (k, w) # prop_set kvs key v)"

text \<open>\<open>_copyArray\<close>: \<open>target[i] = source[i]\<close> for \<open>i\<close> from 0 up to the source's length.\<close>

fun copyArray_loop :: "nat \<Rightarrow> nat \<Rightarrow> jsval list \<Rightarrow> jsval list \<Rightarrow> jsval list" where
  "copyArray_loop 0 i source target = target"
| "copyArray_loop (Suc k) i source target =
     copyArray_loop k (Suc i) source (js_set target i (js_nth source (int i)))"

text \<open>\<open>_copyObject\<close>: \<open>target[key] = source[key] || target[key]\<close> for every key of the source.\<close>

fun copyObject_loop :: "string list \<Rightarrow> (string \<times> jsval) list \<Rightarrow> (string \<times> jsval) list
    \<Rightarrow> (string \<times> jsval) list" where
  "copyObject_loop [] source target = target"
| "copyObject_loop (key # keys) source target =
     copyObject_loop keys source
       (prop_set target key
          (if truthy (prop_get source key) then prop_get source key else prop_get target key))"

definition copyObject :: "addr option \<Rightarrow> heap \<Rightarrow> (error + jsval) \<times> heap" where
  "copyObject source h =
     (case source of
        None \<Rightarrow> (Inl TypeError, h)
      | Some a \<Rightarrow>
          if a < length h then
            (case h ! a of
               Array xs \<Rightarrow>
                 (let (t, h1) = alloc h (Array (replicate (length xs) Undefined))
                  in (Inr (Ref t),
                      update_array h1 t (\<lambda>target. copyArray_loop (length xs) 0 xs target)))
             | Object kvs \<Rightarrow>
                 (let (t, h1) = alloc h (Object [])
                  in (Inr (Ref t), h1[t := Object (copyObject_loop (map fst kvs) kvs [])])))
          else (Inl TypeError, h))"

definition chance_get :: "tables \<Rightarrow> string \<Rightarrow> heap \<Rightarrow> (error + jsval) \<times> heap" where
  "chance_get data nm h = copyObject (map_of data nm) h"

text \<open>
  What a caller can see of a value by following references to a given depth: the contents
  of arrays and objects, not their addresses.
\<close>

datatype contents = Prim jsval | ArrayOf "contents list" | ObjectOf "(string \<times> contents) list"

fun contents_of :: "nat \<Rightarrow> heap \<Rightarrow> jsval \<Rightarrow> contents" where
  "contents_of 0 h v = Prim v"
| "contents_of (Suc d) h v =
     (case v of
        Ref a \<Rightarrow>
          (if a < length h then
             (case h ! a of
                Array xs \<Rightarrow> ArrayOf (map (contents_of d h) xs)
              | Object kvs \<Rightarrow> ObjectOf (map (\<lambda>kv. (fst kv, contents_of d h (snd kv))) kvs))
           else Prim Undefined)
      | _ \<Rightarrow> Prim v)"

text \<open>\<open>ref[key] = v\<close> on an object in the store, as a caller would write it.\<close>

definition assign_prop :: "heap \<Rightarrow> jsval \<Rightarrow> string \<Rightarrow> jsval \<Rightarrow> heap" where
  "assign_prop h r key v =
     (case r of
        Ref a \<Rightarrow>
          (if a < length h then
             (case h ! a of
                Object kvs \<Rightarrow> h[a := Object (prop_set kvs key v)]
              | Array xs \<Rightarrow> h)
           else h)
      | _ \<Rightarrow> h)"

section \<open>Sequences of calls\<close>

text \<open>
  A call of one of the modelled methods with its arguments, and what the caller gets back:
  the returned value or the exception. Array arguments are addresses of arrays in the
  store.

  The tables of \<open>data\<close> belong to the module, not to an instance: every instance reads
  them through \<open>get\<close>, and \<open>set(name, values)\<close> replaces a table for all of them. Of the
  tables the modelled methods read one, \<open>cc_types\<close> (\<open>cc\<close> through \<open>cc_type\<close> and
  \<open>cc_types\<close>), so a run carries that table beside the store and the instance:
  \<open>cc_types()\<close> returns it, \<open>cc\<close> looks the card type up in it, and
  \<open>set("cc_types", values)\<close> puts \<open>values\<close> in its place. \<open>currentYear\<close> is what the
  clock says during the run.
\<close>

datatype call =
    Call_bool "int option"
  | Call_integer range_options
  | Call_natural range_options
  | Call_character char_options
  | Call_string string_options
  | Call_shuffle addr
  | Call_pickone addr
  | Call_pickset addr "int option"
  | Call_weighted "string list" "int list"
  | Call_cc "string option"
  | Call_cc_types
  | Call_set_cc_types "cc_type_rec list"
  | Call_year range_options

datatype outcome =
    Threw error
  | Out_bool bool
  | Out_number int
  | Out_string string
  | Out_value jsval
  | Out_table "cc_type_rec list"
  | Out_undefined

type_synonym world = "cc_type_rec list \<times> heap \<times> Chance"

definition run :: "int \<Rightarrow> call \<Rightarrow> world \<Rightarrow> outcome \<times> world" where
  "run currentYear cl w =
     (let types = fst w; h = fst (snd w); c = snd (snd w) in
      case cl of
        Call_bool l \<Rightarrow>
          (case chance_bool l c of
             (Inl e, c') \<Rightarrow> (Threw e, types, h, c')
           | (Inr b, c') \<Rightarrow> (Out_bool b, types, h, c'))
      | Call_integer opts \<Rightarrow>
          (case integer opts c of
             (Inl e, c') \<Rightarrow> (Threw e, types, h, c')
           | (Inr x, c') \<Rightarrow> (Out_number x, types, h, c'))
      | Call_natural opts \<Rightarrow>
          (case natural opts c of
             (Inl e, c') \<Rightarrow> (Threw e, types, h, c')
           | (Inr x, c') \<Rightarrow> (Out_number x, types, h, c'))
      | Call_character opts \<Rightarrow>
          (case character opts c of
             (Inl e, c') \<Rightarrow> (Threw e, types, h, c')
           | (Inr x, c') \<Rightarrow> (Out_string x, types, h, c'))
      | Call_string opts \<Rightarrow>
          (case chance_string opts c of
             (Inl e, c') \<Rightarrow> (Threw e, types, h, c')
           | (Inr x, c') \<Rightarrow> (Out_string x, types, h, c'))
      | Call_shuffle a \<Rightarrow>
          (case shuffle a h c of
             (Inl e, h', c') \<Rightarrow> (Threw e, types, h', c')
           | (Inr v, h', c') \<Rightarrow> (Out_value v, types, h', c'))
      | Call_pickone a \<Rightarrow>
          (case pickone a h c of
             (Inl e, h', c') \<Rightarrow> (Threw e, types, h', c')
           | (Inr v, h', c') \<Rightarrow> (Out_value v, types, h', c'))
      | Call_pickset a cnt \<Rightarrow>
          (case pickset a cnt h c of
             (Inl e, h', c') \<Rightarrow> (Threw e, types, h', c')
           | (Inr v, h', c') \<Rightarrow> (Out_value v, types, h', c'))
      | Call_weighted arr weights \<Rightarrow>
          (case weighted arr weights False c of
             (Inl e, _, _, c') \<Rightarrow> (Threw e, types, h, c')
           | (Inr None, _, _, c') \<Rightarrow> (Out_undefined, types, h, c')
           | (Inr (Some x), _, _, c') \<Rightarrow> (Out_string x, types, h, c'))
      | Call_cc tp \<Rightarrow>
          (case cc_from types tp c of
             (Inl e, c') \<Rightarrow> (Threw e, types, h, c')
           | (Inr x, c') \<Rightarrow> (Out_string x, types, h, c'))
      | Call_cc_types \<Rightarrow> (Out_table types, types, h, c)
      | Call_set_cc_types table \<Rightarrow> (Out_undefined, table, h, c)
      | Call_year opts \<Rightarrow>
          (case year currentYear opts c of
             (Inl e, c') \<Rightarrow> (Threw e, types, h, c')
           | (Inr x, c') \<Rightarrow> (Out_string x, types, h, c')))"

fun run_calls :: "int \<Rightarrow> call list \<Rightarrow> world \<Rightarrow> outcome list \<times> world" where
  "run_calls currentYear [] w = ([], w)"
| "run_calls currentYear (cl # cls) w =
     (case run currentYear cl w of
        (out, w') \<Rightarrow> (case run_calls currentYear cls w' of (outs, w'') \<Rightarrow> (out # outs, w'')))"


text \<open>The calls that change a table of \<open>data\<close>.\<close>

definition sets_table :: "call \<Rightarrow> bool" where
  "sets_table cl = (case cl of Call_set_cc_types table \<Rightarrow> True | _ \<Rightarrow> False)"

text \<open>Two one-entry tables that differ in the prefix of the card type \<open>"t"\<close>.\<close>

definition table4 :: "cc_type_rec list" where
  "table4 = [\<lparr>name = ''Test'', short_name = ''t'', prefix = ''4'', card_length = 2\<rparr>]"

definition table5 :: "cc_type_rec list" where
  "table5 = [\<lparr>name = ''Test'', short_name = ''t'', prefix = ''5'', card_length = 2\<rparr>]"

section \<open>Reference formulas\<close>

text \<open>
  The seeding recurrence in 32-bit arithmetic, \<open>k\<close> steps on from the entry before
  index \<open>i\<close>: the conventional formula, against which \<open>init_genrand\<close> is compared.
\<close>

fun init_word :: "nat \<Rightarrow> nat \<Rightarrow> u32 \<Rightarrow> u32" where
  "init_word 0 i x = x"
| "init_word (Suc k) i x = init_word k (Suc i) (1812433253 * (x XOR drop_bit 30 x) + of_nat i)"

text \<open>
  The seed in exact integer arithmetic. \<open>hash_of\<close> iterates
  \<open>hash = charCode + (hash << 6) + (hash << 16) - hash\<close> over the characters, and
  \<open>seed_sum\<close> adds \<open>(numComponents - index) * seedling\<close> over the components for a
  given \<open>seedling\<close>. What a string contributes is \<open>string_seedling\<close> in the code
  (its hash once for every character) and \<open>claimed_seedling\<close> in the specification
  (its hash).
\<close>

fun hash_of :: "int \<Rightarrow> string \<Rightarrow> int" where
  "hash_of hash [] = hash"
| "hash_of hash (ch # cs) = hash_of (of_char ch + js_shl hash 6 + js_shl hash 16 - hash) cs"

definition string_seedling :: "seed_component \<Rightarrow> int" where
  "string_seedling a =
     (case a of SeedString str \<Rightarrow> int (length str) * hash_of 0 str | SeedNumber x \<Rightarrow> x)"


definition seed_sum :: "(seed_component \<Rightarrow> int) \<Rightarrow> seed_component list \<Rightarrow> int" where
  "seed_sum seedling args =
     (\<Sum>i < length args. (int (length args) - int i) * seedling (args ! i))"

text \<open>
  When the constructor's arithmetic is exact. A double holds every integer of magnitude
  below \<open>2^53\<close>, so the seed loop computes the exact sum as long as every product
  \<open>(numComponents - index) * seedling\<close> and every partial sum of these products stays
  below \<open>2^53\<close> in magnitude: \<open>exact_sums\<close> checks this along the loop, from component
  \<open>i\<close> and the partial sum \<open>sd\<close> on. The hash of a string of fewer than \<open>2^20\<close>
  characters is exact as well (\<open>short_string\<close>), each step adding less than \<open>2^33\<close> in
  magnitude. \<open>exact_seed\<close> asks for both.
\<close>

fun exact_sums :: "nat \<Rightarrow> nat \<Rightarrow> seed_component list \<Rightarrow> int \<Rightarrow> bool" where
  "exact_sums n i [] sd = True"
| "exact_sums n i (a # as) sd =
     (\<bar>(int n - int i) * string_seedling a\<bar> < 2 ^ 53 \<and>
      \<bar>sd + (int n - int i) * string_seedling a\<bar> < 2 ^ 53 \<and>
      exact_sums n (Suc i) as (sd + (int n - int i) * string_seedling a))"

definition short_string :: "seed_component \<Rightarrow> bool" where
  "short_string a = (case a of SeedString str \<Rightarrow> length str < 2 ^ 20 | SeedNumber x \<Rightarrow> True)"

definition exact_seed :: "seed_component list \<Rightarrow> bool" where
  "exact_seed args = ((\<forall>a \<in> set args. short_string a) \<and> exact_sums (length args) 0 args 0)"

text \<open>One draw from the engine: the instance after a call of \<open>random\<close>.\<close>

definition draw :: "Chance \<Rightarrow> Chance" where
  "draw c = snd (random c)"

section \<open>Properties of the number model\<close>

lemma round53_exact: "\<bar>x\<bar> < 2 ^ 53 \<Longrightarrow> round53 x = x"
  by (simp add: round53_def)

lemma js_shl_bounds: "- (2 ^ 31) \<le> js_shl x k" "js_shl x k < 2 ^ 31"
  unfolding js_shl_def using sint_range_size [of "push_bit k (word_of_int x :: u32)"]
  by (simp_all add: word_size)

lemma split_u32: "push_bit 16 (drop_bit 16 (s :: u32)) + (s AND 0xffff) = s"
proof -
  have "(s AND 0xffff) = take_bit 16 s"
    by (simp add: take_bit_eq_mask mask_eq_exp_minus_1)
  then show ?thesis by (simp add: bits_ident)
qed

lemma upper_mask_eq: "(0xffff0000 :: u32) = NOT (mask 16)"
  by (simp add: mask_eq_exp_minus_1 not_eq_complement)

lemma hi_eq: "drop_bit 16 ((s :: u32) AND 0xffff0000) = drop_bit 16 s"
  unfolding upper_mask_eq
  by (rule bit_eqI) (auto simp add: bit_simps dest: bit_imp_le_length)

lemma lo_bound: "uint ((s :: u32) AND 0xffff) < 2 ^ 16"
proof -
  have "(s AND 0xffff) \<le> 0xffff" by (rule word_and_le1)
  then have "uint (s AND 0xffff) \<le> uint (0xffff :: u32)" by (simp add: word_le_def)
  then show ?thesis by simp
qed

lemma hi_bound: "uint (drop_bit 16 (s :: u32)) < 2 ^ 16"
proof -
  have "uint (drop_bit 16 s) = uint s div 2 ^ 16"
    by (simp add: drop_bit_eq_div uint_div_distrib)
  moreover have "uint s < 2 ^ 32" using uint_bounded [of s] by simp
  ultimately show ?thesis by simp
qed

lemma init_genrand_step_word:
  assumes "i < 2 ^ 32"
  shows "init_genrand_step prev i = 1812433253 * (prev XOR drop_bit 30 prev) + of_nat i"
proof -
  define s where "s = prev XOR drop_bit 30 prev"
  define hi where "hi = uint (drop_bit 16 s)"
  define lo where "lo = uint (s AND 0xffff)"
  have hi: "0 \<le> hi" "hi < 2 ^ 16" unfolding hi_def using hi_bound by simp_all
  have lo: "0 \<le> lo" "lo < 2 ^ 16" unfolding lo_def using lo_bound by simp_all
  have m1: "js_mul hi 1812433253 = hi * 1812433253"
    unfolding js_mul_def using hi by (intro round53_exact) simp
  have m2: "js_mul lo 1812433253 = lo * 1812433253"
    unfolding js_mul_def using lo by (intro round53_exact) simp
  let ?sh = "js_shl (hi * 1812433253) 16"
  have a1: "js_add ?sh (lo * 1812433253) = ?sh + lo * 1812433253"
    unfolding js_add_def using lo js_shl_bounds [of "hi * 1812433253" 16]
    by (intro round53_exact) simp
  have a2: "js_add (?sh + lo * 1812433253) (int i) = ?sh + lo * 1812433253 + int i"
    unfolding js_add_def using lo js_shl_bounds [of "hi * 1812433253" 16] assms
    by (intro round53_exact) simp
  have "init_genrand_step prev i =
      ToUint32 (js_add (js_add (js_shl (js_mul hi 1812433253) 16) (js_mul lo 1812433253)) (int i))"
    unfolding init_genrand_step_def Let_def hi_eq s_def hi_def lo_def by (rule refl)
  also have "\<dots> = ToUint32 (?sh + lo * 1812433253 + int i)"
    unfolding m1 m2 a1 a2 by (rule refl)
  also have "\<dots> = push_bit 16 (drop_bit 16 s * 1812433253) + (s AND 0xffff) * 1812433253 + of_nat i"
    by (simp add: ToUint32_def js_shl_def hi_def lo_def)
  also have "\<dots> = (push_bit 16 (drop_bit 16 s) + (s AND 0xffff)) * 1812433253 + of_nat i"
    by (simp add: push_bit_eq_mult algebra_simps)
  also have "\<dots> = s * 1812433253 + of_nat i"
    unfolding split_u32 by (rule refl)
  finally show ?thesis unfolding s_def by (simp only: mult.commute)
qed

lemma init_genrand_loop_length [simp]: "length (init_genrand_loop k i xs) = length xs"
  by (induction k arbitrary: i xs) simp_all

lemma init_genrand_loop_below: "j < i \<Longrightarrow> init_genrand_loop k i xs ! j = xs ! j"
  by (induction k arbitrary: i xs) simp_all

lemma init_genrand_loop_rec:
  "0 < i \<Longrightarrow> i \<le> j \<Longrightarrow> j < i + k \<Longrightarrow> j < length xs \<Longrightarrow>
   init_genrand_loop k i xs ! j = init_genrand_step (init_genrand_loop k i xs ! (j - 1)) j"
proof (induction k arbitrary: i xs)
  case 0
  then show ?case by simp
next
  case (Suc k)
  show ?case
  proof (cases "j = i")
    case True
    with Suc.prems show ?thesis by (simp add: init_genrand_loop_below)
  next
    case False
    with Suc.prems have "init_genrand_loop k (Suc i) (xs[i := init_genrand_step (xs ! (i - 1)) i]) ! j =
        init_genrand_step (init_genrand_loop k (Suc i) (xs[i := init_genrand_step (xs ! (i - 1)) i]) ! (j - 1)) j"
      by (intro Suc.IH) simp_all
    then show ?thesis by simp
  qed
qed

lemma init_genrand_entries:
  "length (mt (init_genrand s)) = 624"
  "mti (init_genrand s) = 624"
  "mt (init_genrand s) ! 0 = ToUint32 s"
  "0 < i \<Longrightarrow> i < 624 \<Longrightarrow>
     mt (init_genrand s) ! i = init_genrand_step (mt (init_genrand s) ! (i - 1)) i"
  by (simp_all add: init_genrand_def N_def init_genrand_loop_below init_genrand_loop_rec)

lemma init_word_entries:
  "0 < i \<Longrightarrow> i - 1 + k < 624 \<Longrightarrow>
   init_word k i (mt (init_genrand s) ! (i - 1)) = mt (init_genrand s) ! (i - 1 + k)"
proof (induction k arbitrary: i)
  case 0
  then show ?case by simp
next
  case (Suc k)
  have "i < 2 ^ 32" using Suc.prems by simp
  then have "1812433253 * (mt (init_genrand s) ! (i - 1) XOR drop_bit 30 (mt (init_genrand s) ! (i - 1))) + of_nat i
      = mt (init_genrand s) ! i"
    using Suc.prems by (simp add: init_genrand_entries(4) init_genrand_step_word)
  moreover have "init_word k (Suc i) (mt (init_genrand s) ! (Suc i - 1)) = mt (init_genrand s) ! (Suc i - 1 + k)"
    using Suc.prems by (intro Suc.IH) simp_all
  ultimately show ?case using Suc.prems by simp
qed

lemma twist_at_length [simp]: "length (twist_at kk nxt src xs) = length xs"
  by (simp add: twist_at_def Let_def)

lemma twist_at_other: "j \<noteq> kk \<Longrightarrow> twist_at kk nxt src xs ! j = xs ! j"
  by (simp add: twist_at_def Let_def)

lemma twist_loop1_length [simp]: "length (twist_loop1 k kk xs) = length xs"
  by (induction k arbitrary: kk xs) simp_all

lemma twist_loop2_length [simp]: "length (twist_loop2 k kk xs) = length xs"
  by (induction k arbitrary: kk xs) simp_all

lemma twist_loop1_below: "j < kk \<Longrightarrow> twist_loop1 k kk xs ! j = xs ! j"
  by (induction k arbitrary: kk xs) (simp_all add: twist_at_other)

lemma twist_loop2_below: "j < kk \<Longrightarrow> twist_loop2 k kk xs ! j = xs ! j"
  by (induction k arbitrary: kk xs) (simp_all add: twist_at_other)

lemma twist_first:
  assumes "length xs = 624"
  shows "twist xs ! 0 =
    xs ! 397 XOR drop_bit 1 ((xs ! 0 AND UPPER_MASK) OR (xs ! 1 AND LOWER_MASK))
      XOR mag01 (((xs ! 0 AND UPPER_MASK) OR (xs ! 1 AND LOWER_MASK)) AND 0x1)"
proof -
  have "twist_loop1 (N - M) 0 xs = twist_loop1 226 1 (twist_at 0 1 397 xs)"
    by (simp add: N_def M_def numeral_eq_Suc)
  then have "twist xs ! 0 = twist_at 0 1 397 xs ! 0"
    by (simp add: twist_def twist_at_other twist_loop2_below twist_loop1_below N_def M_def)
  then show ?thesis using assms by (simp add: twist_at_def Let_def)
qed

lemma genrand_int32_first:
  "fst (genrand_int32 (init_genrand s)) =
     tempering (twist (mt (init_genrand s)) ! 0)"
  by (simp add: genrand_int32_def Let_def init_genrand_entries N_def)

lemma word397: "init_word 397 (Suc 0) 5489 = 3183906156"
  by code_simp

lemma first_draw_5489: "fst (genrand_int32 (init_genrand 5489)) = 3499211612"
proof -
  let ?xs = "mt (init_genrand 5489)"
  have x0: "?xs ! 0 = 5489" by (simp add: init_genrand_entries ToUint32_def)
  have x1: "?xs ! 1 = 1301868182"
    using init_genrand_entries(4) [of 1 5489] by (simp add: x0 init_genrand_step_word)
  have x397: "?xs ! 397 = 3183906156"
    using init_word_entries [of 1 397 5489] by (simp add: x0 word397)
  have "twist ?xs ! 0 = 3183906156 XOR drop_bit 1 ((5489 AND UPPER_MASK) OR (1301868182 AND LOWER_MASK))
      XOR mag01 (((5489 AND UPPER_MASK) OR (1301868182 AND LOWER_MASK)) AND 0x1)"
    by (simp only: twist_first [OF init_genrand_entries(1)] x0 x1 x397)
  also have "tempering \<dots> = 3499211612"
    by code_simp
  finally show ?thesis by (simp only: genrand_int32_first)
qed

lemma round53_shape:
  assumes "2 ^ 53 \<le> x"
  defines "s \<equiv> nat (bitlen x - 53)"
  shows "round53 x = (x div 2 ^ s) * 2 ^ s \<or> (2 ^ (s - 1) \<le> x mod 2 ^ s \<and> round53 x = (x div 2 ^ s + 1) * 2 ^ s)"
    and "2 ^ (s + 52) \<le> x" and "x < 2 ^ (s + 53)" and "0 < s"
proof -
  have xpos: "0 < x" using assms(1) by (smt (verit) zero_less_power)
  have nl: "\<not> x < 2 ^ 53" using assms(1) by simp
  have b: "2 ^ nat (bitlen x - 1) \<le> x" "x < 2 ^ nat (bitlen x)"
    using bitlen_bounds [OF xpos] by simp_all
  have "\<not> bitlen x \<le> 53"
    using assms(1) b(2) by (simp add: bitlen_le_iff_power)
  then have bl: "54 \<le> bitlen x" by simp
  then show "0 < s" by (simp add: s_def)
  have e1: "nat (bitlen x - 1) = s + 52" using bl by (simp add: s_def)
  have e2: "nat (bitlen x) = s + 53" using bl by (simp add: s_def)
  show "2 ^ (s + 52) \<le> x" using b(1) e1 by simp
  show "x < 2 ^ (s + 53)" using b(2) e2 by simp
  have r: "round53 x =
      (if 2 ^ (s - 1) < x mod 2 ^ s \<or> (x mod 2 ^ s = 2 ^ (s - 1) \<and> odd (x div 2 ^ s))
       then x div 2 ^ s + 1 else x div 2 ^ s) * 2 ^ s"
    using xpos nl by (simp add: round53_def Let_def s_def)
  show "round53 x = (x div 2 ^ s) * 2 ^ s \<or> (2 ^ (s - 1) \<le> x mod 2 ^ s \<and> round53 x = (x div 2 ^ s + 1) * 2 ^ s)"
    unfolding r by (auto split: if_splits)
qed

lemma round53_nonneg: "0 \<le> x \<Longrightarrow> 0 \<le> round53 x"
proof (cases "x < 2 ^ 53")
  case True
  assume "0 \<le> x"
  with True show ?thesis by (simp add: round53_exact)
next
  case False
  assume x: "0 \<le> x"
  from False have "2 ^ 53 \<le> x" by simp
  note sh = round53_shape(1) [OF this]
  have "0 \<le> x div 2 ^ nat (bitlen x - 53)" using x by (simp add: pos_imp_zdiv_nonneg_iff)
  with sh show ?thesis by auto
qed

text \<open>Rounding moves a value by at most one part in 2^53.\<close>

lemma round53_upper: 
  assumes "0 \<le> x"
  shows "round53 x * 2 ^ 53 \<le> x * (2 ^ 53 + 1)"
proof (cases "x < 2 ^ 53")
  case True
  with assms show ?thesis by (simp add: round53_exact algebra_simps)
next
  case False
  then have big: "2 ^ 53 \<le> x" by simp
  define s where "s = nat (bitlen x - 53)"
  note sh = round53_shape [OF big, folded s_def]
  have dm: "x = (x div 2 ^ s) * 2 ^ s + x mod 2 ^ s"
    using div_mult_mod_eq [of x "2 ^ s"] by linarith
  have m0: "0 \<le> x mod 2 ^ s" by simp
  have half: "(2::int) ^ s = 2 * 2 ^ (s - 1)" using sh(4) by (cases s) simp_all
  have "round53 x \<le> x + 2 ^ (s - 1)"
  proof -
    from sh(1) show ?thesis
    proof
      assume "round53 x = x div 2 ^ s * 2 ^ s"
      then have "round53 x \<le> x" using dm m0 by linarith
      then show ?thesis by (smt (verit) zero_less_power)
    next
      assume a: "2 ^ (s - 1) \<le> x mod 2 ^ s \<and> round53 x = (x div 2 ^ s + 1) * 2 ^ s"
      then have "round53 x = x div 2 ^ s * 2 ^ s + 2 ^ s" by (simp add: algebra_simps)
      then have "round53 x = x - x mod 2 ^ s + 2 ^ s" using dm by linarith
      then show ?thesis using a half by linarith
    qed
  qed
  moreover have "(2::int) ^ (s - 1) * 2 ^ 53 \<le> x"
  proof -
    have "(2::int) ^ (s - 1) * 2 ^ 53 = 2 ^ (s + 52)"
      using sh(4) by (cases s) (simp_all add: power_add)
    then show ?thesis using sh(2) by simp
  qed
  ultimately have "round53 x * 2 ^ 53 \<le> (x + 2 ^ (s - 1)) * 2 ^ 53"
    by simp
  also have "\<dots> = x * 2 ^ 53 + 2 ^ (s - 1) * 2 ^ 53" by (simp add: algebra_simps)
  also have "\<dots> \<le> x * 2 ^ 53 + x" using \<open>(2::int) ^ (s - 1) * 2 ^ 53 \<le> x\<close> by simp
  finally show ?thesis by (simp add: algebra_simps)
qed

lemma int_div_less: "0 < b \<Longrightarrow> x < a * b \<Longrightarrow> x div b < (a::int)"
proof (rule ccontr)
  assume b: "0 < b" and x: "x < a * b" and n: "\<not> x div b < a"
  have "x div b * b + x mod b = x" by (rule div_mult_mod_eq)
  moreover have "0 \<le> x mod b" using b by simp
  ultimately have "x div b * b \<le> x" by linarith
  moreover have "a * b \<le> x div b * b" using n b by (intro mult_right_mono) simp_all
  ultimately show False using x by linarith
qed

lemma int_div_ge: "0 < b \<Longrightarrow> a * b \<le> x \<Longrightarrow> (a::int) \<le> x div b"
proof (rule ccontr)
  assume b: "0 < b" and x: "a * b \<le> x" and n: "\<not> a \<le> x div b"
  have e: "x div b * b + x mod b = x" by (rule div_mult_mod_eq)
  have "x mod b < b" using b by simp
  from n have "x div b + 1 \<le> a" by simp
  then have "(x div b + 1) * b \<le> a * b" using b by (intro mult_right_mono) simp_all
  then have "x div b * b + b \<le> a * b" by (simp add: algebra_simps)
  with e \<open>x mod b < b\<close> x show False by linarith
qed

lemma round53_fixed:
  assumes "2 ^ 53 \<le> x" and "2 ^ nat (bitlen x - 53) dvd x"
  shows "round53 x = x"
proof -
  define s where "s = nat (bitlen x - 53)"
  have xpos: "0 < x" using assms(1) by (smt (verit) zero_less_power)
  have nl: "\<not> x < 2 ^ 53" using assms(1) by simp
  have m: "x mod 2 ^ s = 0" using assms(2) by (simp add: s_def mod_eq_0_iff_dvd)
  have d: "x div 2 ^ s * 2 ^ s = x" using assms(2) by (simp add: s_def)
  have "round53 x =
      (if 2 ^ (s - 1) < x mod 2 ^ s \<or> (x mod 2 ^ s = 2 ^ (s - 1) \<and> odd (x div 2 ^ s))
       then x div 2 ^ s + 1 else x div 2 ^ s) * 2 ^ s"
    using xpos nl by (simp add: round53_def Let_def s_def)
  also have "\<dots> = x div 2 ^ s * 2 ^ s"
    unfolding m by simp
  finally show ?thesis using d by simp
qed

lemma bitlen_53: "2 ^ 52 \<le> m \<Longrightarrow> m < 2 ^ 53 \<Longrightarrow> bitlen m = 53"
proof -
  assume a: "2 ^ 52 \<le> m" "m < 2 ^ 53"
  have "bitlen m \<le> 53" using a(2) by (simp add: bitlen_le_iff_power)
  moreover have "53 \<le> bitlen m" using a(1) by (simp add: bitlen_ge_iff_power)
  ultimately show ?thesis by simp
qed

lemma round53_scaled:
  assumes "2 ^ 52 \<le> m" "m \<le> 2 ^ 53" "0 < s"
  shows "round53 (m * 2 ^ s) = m * 2 ^ s"
proof (cases "m = 2 ^ 53")
  case True
  have "bitlen ((2::int) ^ (53 + s)) = 53 + int s + 1"
    using bitlen_twopow_add_eq [of 0 "53 + s"] by simp
  then have "nat (bitlen ((2::int) ^ (53 + s)) - 53) = s + 1" by simp
  moreover have "(2::int) ^ (s + 1) dvd 2 ^ (53 + s)" by (intro le_imp_power_dvd) simp
  moreover have "(2::int) ^ 53 \<le> 2 ^ (53 + s)" by (intro power_increasing) simp_all
  ultimately have "round53 (2 ^ (53 + s)) = 2 ^ (53 + s)"
    by (intro round53_fixed) simp_all
  then show ?thesis using True by (simp add: power_add)
next
  case False
  with assms have m: "2 ^ 52 \<le> m" "m < 2 ^ 53" by simp_all
  then have mpos: "0 < m" by (smt (verit) zero_less_power)
  have bl: "bitlen (m * 2 ^ s) = 53 + int s"
    using bitlen_pow2 [OF mpos, of s] bitlen_53 [OF m] by simp
  have "(2::int) ^ 53 = 2 ^ 52 * 2 ^ 1" by simp
  also have "\<dots> \<le> m * 2 ^ s"
    using m(1) assms(3) by (intro mult_mono power_increasing) simp_all
  finally have big: "2 ^ 53 \<le> m * 2 ^ s" .
  show ?thesis by (rule round53_fixed [OF big]) (simp add: bl)
qed

lemma round53_idem: "0 \<le> x \<Longrightarrow> round53 (round53 x) = round53 x"
proof (cases "x < 2 ^ 53")
  case True
  assume "0 \<le> x"
  with True show ?thesis by (simp add: round53_exact)
next
  case False
  then have big: "2 ^ 53 \<le> x" by simp
  define s where "s = nat (bitlen x - 53)"
  note sh = round53_shape [OF big, folded s_def]
  define q where "q = x div 2 ^ s"
  have q1: "2 ^ 52 \<le> q"
  proof -
    have "(2::int) ^ 52 * 2 ^ s \<le> x" using sh(2) by (simp add: power_add mult.commute)
    then show ?thesis unfolding q_def by (intro int_div_ge) simp_all
  qed
  have q2: "q < 2 ^ 53"
  proof -
    have "x < 2 ^ 53 * 2 ^ s" using sh(3) by (simp add: power_add mult.commute)
    then show ?thesis unfolding q_def by (intro int_div_less) simp_all
  qed
  from sh(1) show ?thesis
  proof
    assume "round53 x = x div 2 ^ s * 2 ^ s"
    then have "round53 x = q * 2 ^ s" by (simp add: q_def)
    then show ?thesis using round53_scaled [of q s] q1 q2 sh(4) by simp
  next
    assume "2 ^ (s - 1) \<le> x mod 2 ^ s \<and> round53 x = (x div 2 ^ s + 1) * 2 ^ s"
    then have "round53 x = (q + 1) * 2 ^ s" by (simp add: q_def)
    then show ?thesis using round53_scaled [of "q + 1" s] q1 q2 sh(4) by simp
  qed
qed

lemma random_split: "random c = (fst (random c), draw c)"
  by (simp add: draw_def)

lemma random_bounds: "0 \<le> fst (random c)" "fst (random c) < 2 ^ 32"
proof -
  obtain y g where g: "genrand_int32 (twister c) = (y, g)" by (cases "genrand_int32 (twister c)")
  then have f: "fst (random c) = uint y" by (simp add: random_def mt_random_def)
  show "0 \<le> fst (random c)" unfolding f by simp
  show "fst (random c) < 2 ^ 32" unfolding f using uint_bounded [of y] by simp
qed

lemma integer_split:
  "integer options c =
     (let mn = (case opt_min options of None \<Rightarrow> MIN_INT | Some v \<Rightarrow> v);
          mx = (case opt_max options of None \<Rightarrow> MAX_INT | Some v \<Rightarrow> v)
      in if mx < mn then (Inl RangeError, c)
         else (Inr (Math_floor (frac_plus (frac_times (fst (random c)) (js_add (js_sub mx mn) 1)) mn)),
               draw c))"
  by (simp add: integer_def Let_def draw_def split_beta)

lemma integer_range_error:
  "mx < mn \<Longrightarrow> integer \<lparr>opt_min = Some mn, opt_max = Some mx\<rparr> c = (Inl RangeError, c)"
  by (simp add: integer_split)

lemma integer_exact:
  assumes "- (2 ^ 20) \<le> mn" "mn \<le> mx" "mx < 2 ^ 20"
  shows "integer \<lparr>opt_min = Some mn, opt_max = Some mx\<rparr> c =
           (Inr (fst (random c) * (mx - mn + 1) div 2 ^ 32 + mn), draw c)"
    and "mn \<le> fst (random c) * (mx - mn + 1) div 2 ^ 32 + mn"
    and "fst (random c) * (mx - mn + 1) div 2 ^ 32 + mn \<le> mx"
proof -
  define r where "r = fst (random c)"
  define k where "k = mx - mn + 1"
  have r: "0 \<le> r" "r < 2 ^ 32" unfolding r_def by (rule random_bounds)+
  have k: "1 \<le> k" "k \<le> 2 ^ 21" unfolding k_def using assms by simp_all
  have s1: "js_sub mx mn = mx - mn"
    unfolding js_sub_def using assms by (intro round53_exact) simp
  have s2: "js_add (mx - mn) 1 = k"
    unfolding js_add_def k_def using assms by (intro round53_exact) simp
  have rk0: "0 \<le> r * k" using r k by simp
  have "r * k \<le> (2 ^ 32 - 1) * 2 ^ 21"
    using r k by (intro mult_mono) simp_all
  then have rk1: "r * k < 2 ^ 53" by simp
  have s3: "frac_times r k = r * k"
    unfolding frac_times_def using rk0 rk1 by (intro round53_exact) simp
  have "r * k \<le> (2 ^ 32 - 1) * k" using r k by (intro mult_right_mono) simp_all
  then have up: "r * k + mn * 2 ^ 32 < (mx + 1) * 2 ^ 32"
    using k by (simp add: k_def algebra_simps)
  have s4: "frac_plus (r * k) mn = r * k + mn * 2 ^ 32"
    unfolding frac_plus_def using rk0 up assms by (intro round53_exact) simp
  have fl: "Math_floor (r * k + mn * 2 ^ 32) = r * k div 2 ^ 32 + mn"
    by (simp add: Math_floor_def)
  show "integer \<lparr>opt_min = Some mn, opt_max = Some mx\<rparr> c =
           (Inr (fst (random c) * (mx - mn + 1) div 2 ^ 32 + mn), draw c)"
    using assms(2) by (simp add: integer_split s1 s2 s3 s4 fl [simplified] r_def [symmetric] k_def [symmetric])
  have "0 \<le> r * k div 2 ^ 32" using rk0 by (simp add: pos_imp_zdiv_nonneg_iff)
  then show "mn \<le> fst (random c) * (mx - mn + 1) div 2 ^ 32 + mn"
    by (simp add: r_def k_def)
  have "r * k < k * 2 ^ 32" using r k by (simp add: mult.commute)
  then have "r * k div 2 ^ 32 < k" by (intro int_div_less) simp_all
  then show "fst (random c) * (mx - mn + 1) div 2 ^ 32 + mn \<le> mx"
    by (simp add: r_def k_def)
qed

lemma natural_split:
  "natural options c =
     (let mn = (case opt_min options of None \<Rightarrow> 0 | Some v \<Rightarrow> v);
          mx = (case opt_max options of None \<Rightarrow> MAX_INT | Some v \<Rightarrow> v)
      in if mn < 0 then (Inl RangeError, c)
         else integer \<lparr>opt_min = Some mn, opt_max = Some mx\<rparr> c)"
  by (simp add: natural_def)

lemma natural_exact:
  assumes "0 \<le> mn" "mn \<le> mx" "mx < 2 ^ 20"
  shows "natural \<lparr>opt_min = Some mn, opt_max = Some mx\<rparr> c =
           (Inr (fst (random c) * (mx - mn + 1) div 2 ^ 32 + mn), draw c)"
  using assms integer_exact(1) [of mn mx c] by (simp add: natural_split)

text \<open>An index drawn for an array of \<open>m + 1\<close> elements is an index of the array.\<close>

lemma natural_max_range:
  assumes "0 \<le> m" "m < 2 ^ 32"
  shows "\<exists>j. natural \<lparr>opt_min = None, opt_max = Some m\<rparr> c = (Inr j, draw c) \<and> 0 \<le> j \<and> j \<le> m"
proof -
  define r where "r = fst (random c)"
  have r: "0 \<le> r" "r < 2 ^ 32" unfolding r_def by (rule random_bounds)+
  have s1: "js_sub m 0 = m"
    unfolding js_sub_def using assms by (simp add: round53_exact)
  have s2: "js_add m 1 = m + 1"
    unfolding js_add_def using assms by (intro round53_exact) simp
  define p where "p = frac_times r (m + 1)"
  have rk0: "0 \<le> r * (m + 1)" using r assms by simp
  have p0: "0 \<le> p" unfolding p_def frac_times_def using rk0 by (rule round53_nonneg)
  have "p * 2 ^ 53 \<le> r * (m + 1) * (2 ^ 53 + 1)"
    unfolding p_def frac_times_def using rk0 by (rule round53_upper)
  also have "\<dots> \<le> (2 ^ 32 - 1) * (m + 1) * (2 ^ 53 + 1)"
    using r assms by (intro mult_right_mono) simp_all
  also have "\<dots> < (m + 1) * 2 ^ 32 * 2 ^ 53"
    using assms by (simp add: algebra_simps)
  finally have p1: "p < (m + 1) * 2 ^ 32" by simp
  have s3: "frac_plus p 0 = p"
    unfolding frac_plus_def p_def frac_times_def using rk0 by (simp add: round53_idem)
  have "natural \<lparr>opt_min = None, opt_max = Some m\<rparr> c = (Inr (Math_floor p), draw c)"
    using assms(1) by (simp add: natural_split integer_split s1 s2 s3 r_def [symmetric] p_def [symmetric])
  moreover have "0 \<le> Math_floor p" using p0 by (simp add: Math_floor_def pos_imp_zdiv_nonneg_iff)
  moreover have "Math_floor p < m + 1" unfolding Math_floor_def using p1 by (intro int_div_less) simp_all
  ultimately show ?thesis by simp
qed

lemma integer_draw:
  assumes "(case opt_min options of None \<Rightarrow> MIN_INT | Some v \<Rightarrow> v)
            \<le> (case opt_max options of None \<Rightarrow> MAX_INT | Some v \<Rightarrow> v)"
  shows "\<exists>v. integer options c = (Inr v, draw c)"
  using assms by (simp add: integer_split Let_def)

lemma new_Chance_5489:
  "new_Chance fallback [SeedNumber 5489] = \<lparr>seed = Some 5489, twister = init_genrand 5489\<rparr>"
  by (simp add: new_Chance_def combine_seed_def seedling_of_def new_MersenneTwister_def
      js_add_def js_mul_def round53_exact)

lemma random_5489: "fst (random (new_Chance fallback [SeedNumber 5489])) = 3499211612"
proof -
  obtain y g where g: "genrand_int32 (init_genrand 5489) = (y, g)"
    by (cases "genrand_int32 (init_genrand 5489)")
  then have "y = 3499211612" using first_draw_5489 by simp
  then show ?thesis using g by (simp add: new_Chance_5489 random_def mt_random_def)
qed

lemma round53_example: "round53 19342813113834073793722040 = 19342813113834075385233408"
  by code_simp

lemma natural_draw:
  "0 \<le> mx \<Longrightarrow> \<exists>v. natural \<lparr>opt_min = None, opt_max = Some mx\<rparr> c = (Inr v, draw c)"
  by (simp add: natural_split integer_split)

lemma character_pool_nonempty:
  "(case casing options of Lower \<Rightarrow> CHARS_LOWER | Upper \<Rightarrow> CHARS_UPPER
      | AnyCase \<Rightarrow> CHARS_LOWER @ CHARS_UPPER) \<noteq> []"
  by (simp add: CHARS_LOWER_def CHARS_UPPER_def split: casing.split)

lemma character_draw:
  assumes "\<not> (alpha options \<and> symbols options)"
  shows "\<exists>s. character options c = (Inr s, draw c)"
proof -
  define letters where "letters = (case casing options of Lower \<Rightarrow> CHARS_LOWER | Upper \<Rightarrow> CHARS_UPPER
      | AnyCase \<Rightarrow> CHARS_LOWER @ CHARS_UPPER)"
  define dflt where "dflt = (if alpha options then letters
                    else if symbols options then ''!@#$%^&*()[]''
                    else letters @ NUMBERS @ ''!@#$%^&*()[]'')"
  define p where "p = (case pool options of None \<Rightarrow> dflt | Some q \<Rightarrow> if q \<noteq> [] then q else dflt)"
  have "letters \<noteq> []" unfolding letters_def by (rule character_pool_nonempty)
  then have "dflt \<noteq> []" by (simp add: dflt_def)
  then have "p \<noteq> []" by (simp add: p_def split: option.split)
  then have "0 \<le> int (length p) - 1" by (cases p) simp_all
  from natural_draw [OF this, of c] obtain v
    where v: "natural \<lparr>opt_min = None, opt_max = Some (int (length p) - 1)\<rparr> c = (Inr v, draw c)" ..
  have "character options c =
      (case natural \<lparr>opt_min = None, opt_max = Some (int (length p) - 1)\<rparr> c of
         (Inl e, c') \<Rightarrow> (Inl e, c')
       | (Inr i, c') \<Rightarrow> (Inr (charAt p i), c'))"
    unfolding character_def Let_def p_def dflt_def letters_def using assms by simp
  then have "character options c = (Inr (charAt p v), draw c)" by (simp add: v)
  then show ?thesis ..
qed

lemma character_error:
  "alpha options \<and> symbols options \<Longrightarrow> character options c = (Inl RangeError, c)"
  by (simp add: character_def)

lemma n_loop_draws:
  assumes "\<And>c. \<exists>x. fn c = (Inr x, draw c)"
  shows "\<exists>ys. n_loop fn k arr c = (Inr (arr @ ys), (draw ^^ k) c) \<and> length ys = k"
proof (induction k arbitrary: arr c)
  case 0
  then show ?case by simp
next
  case (Suc k)
  from assms [of c] obtain x where x: "fn c = (Inr x, draw c)" ..
  from Suc.IH [of "arr @ [x]" "draw c"] obtain ys
    where ys: "n_loop fn k (arr @ [x]) (draw c) = (Inr ((arr @ [x]) @ ys), (draw ^^ k) (draw c))"
      and l: "length ys = k" by blast
  have "n_loop fn (Suc k) arr c = (Inr (arr @ (x # ys)), (draw ^^ Suc k) c)"
    using x ys by (simp add: funpow_swap1)
  with l show ?case by (intro exI [of _ "x # ys"]) simp
qed

lemma n_loop_fails:
  assumes "\<And>c. fn c = (Inl e, c)"
  shows "n_loop fn (Suc k) arr c = (Inl e, c)"
  using assms by simp

lemma string_default_length:
  "\<exists>d. natural \<lparr>opt_min = Some 5, opt_max = Some 20\<rparr> c = (Inr d, draw c) \<and> 5 \<le> d \<and> d \<le> 20"
proof -
  have "natural \<lparr>opt_min = Some 5, opt_max = Some 20\<rparr> c =
      (Inr (fst (random c) * (20 - 5 + 1) div 2 ^ 32 + 5), draw c)"
    by (rule natural_exact) simp_all
  moreover have "5 \<le> fst (random c) * (20 - 5 + 1) div 2 ^ 32 + 5"
    by (rule integer_exact(2)) simp_all
  moreover have "fst (random c) * (20 - 5 + 1) div 2 ^ 32 + 5 \<le> 20"
    by (rule integer_exact(3)) simp_all
  ultimately show ?thesis by blast
qed

lemma string_always_draws: "\<exists>k. snd (chance_string options c) = (draw ^^ Suc k) c"
proof -
  from string_default_length [of c] obtain d
    where d: "natural \<lparr>opt_min = Some 5, opt_max = Some 20\<rparr> c = (Inr d, draw c)" by blast
  define len where "len = (case str_length options of None \<Rightarrow> d | Some l \<Rightarrow> l)"
  show ?thesis
  proof (cases "len < 0")
    case True
    then have "snd (chance_string options c) = (draw ^^ Suc 0) c"
      by (simp add: chance_string_def d len_def [symmetric])
    then show ?thesis ..
  next
    case nonneg: False
    show ?thesis
    proof (cases "alpha options \<and> symbols options")
      case True
      have "snd (chance_n (character options) (Some len) (draw c)) = draw c"
      proof (cases "nat len")
        case 0
        then show ?thesis using nonneg by (simp add: chance_n_def)
      next
        case (Suc k)
        then show ?thesis using nonneg True by (simp add: chance_n_def character_error max_def)
      qed
      then have "snd (chance_string options c) = (draw ^^ Suc 0) c"
        using nonneg
        by (auto simp add: chance_string_def d len_def [symmetric] split: prod.split sum.split)
      then show ?thesis ..
    next
      case False
      then have "\<And>c'. \<exists>s. character options c' = (Inr s, draw c')" by (rule character_draw)
      from n_loop_draws [of "character options", OF this, of "nat len" "[]" "draw c"]
      obtain ys where "n_loop (character options) (nat len) [] (draw c) = (Inr ([] @ ys), (draw ^^ nat len) (draw c))"
        by blast
      then have "snd (chance_string options c) = (draw ^^ Suc (nat len)) c"
        using nonneg
        by (simp add: chance_string_def d len_def [symmetric] chance_n_def funpow_swap1 max_def)
      then show ?thesis ..
    qed
  qed
qed

lemma string_length_draws:
  assumes "str_length options = Some L" "0 \<le> L" "\<not> (alpha options \<and> symbols options)"
  shows "\<exists>text. chance_string options c = (Inr text, (draw ^^ nat (L + 1)) c)"
proof -
  from string_default_length [of c] obtain d
    where d: "natural \<lparr>opt_min = Some 5, opt_max = Some 20\<rparr> c = (Inr d, draw c)" by blast
  from assms(3) have "\<And>c'. \<exists>s. character options c' = (Inr s, draw c')" by (rule character_draw)
  from n_loop_draws [of "character options", OF this, of "nat L" "[]" "draw c"]
  obtain ys where "n_loop (character options) (nat L) [] (draw c) = (Inr ([] @ ys), (draw ^^ nat L) (draw c))"
    by blast
  moreover have "nat (L + 1) = Suc (nat L)" using assms(2) by simp
  ultimately have "chance_string options c = (Inr (concat ys), (draw ^^ nat (L + 1)) c)"
    using assms(1,2) by (simp add: chance_string_def d chance_n_def funpow_swap1 max_def)
  then show ?thesis ..
qed

lemma round53_pos: "0 < x \<Longrightarrow> 0 < round53 x"
proof (cases "x < 2 ^ 53")
  case True
  assume "0 < x"
  with True show ?thesis by (simp add: round53_exact)
next
  case False
  then have big: "2 ^ 53 \<le> x" by simp
  define s where "s = nat (bitlen x - 53)"
  note sh = round53_shape [OF big, folded s_def]
  have "(2::int) ^ 52 * 2 ^ s \<le> x" using sh(2) by (simp add: power_add mult.commute)
  then have "2 ^ 52 \<le> x div 2 ^ s" by (intro int_div_ge) simp_all
  then have q: "0 < x div 2 ^ s" by (smt (verit) zero_less_power)
  from sh(1) show ?thesis
  proof
    assume "round53 x = x div 2 ^ s * 2 ^ s"
    then show ?thesis using q by simp
  next
    assume "2 ^ (s - 1) \<le> x mod 2 ^ s \<and> round53 x = (x div 2 ^ s + 1) * 2 ^ s"
    then show ?thesis using q by simp
  qed
qed

lemma weighted_sum_pos_acc: "0 < acc \<Longrightarrow> 0 < weighted_sum ws acc"
proof (induction ws arbitrary: acc)
  case Nil
  then show ?case by simp
next
  case (Cons val ws)
  show ?case
  proof (cases "0 < val")
    case True
    then have "0 < js_add acc val" unfolding js_add_def using Cons.prems by (intro round53_pos) simp
    then show ?thesis using True Cons.IH by simp
  next
    case False
    then show ?thesis using Cons by simp
  qed
qed

lemma weighted_sum_pos: "0 \<le> acc \<Longrightarrow> \<exists>w \<in> set ws. 0 < w \<Longrightarrow> 0 < weighted_sum ws acc"
proof (induction ws arbitrary: acc)
  case Nil
  then show ?case by simp
next
  case (Cons val ws)
  show ?case
  proof (cases "0 < val")
    case True
    then have "0 < js_add acc val" unfolding js_add_def using Cons.prems by (intro round53_pos) simp
    then show ?thesis using True weighted_sum_pos_acc by simp
  next
    case False
    then show ?thesis using Cons by simp
  qed
qed

lemma weighted_scan_chosen:
  assumes "ws \<noteq> []"
    and "lastGood = - 1 \<or> (0 \<le> lastGood \<and> nat lastGood < length pre \<and> 0 < pre ! nat lastGood)"
  shows "\<exists>i. weighted_scan sel ws (length pre) tot lastGood = Some i \<and>
           ((i = - 1 \<and> lastGood = - 1 \<and> (\<forall>w \<in> set ws. w \<le> 0)) \<or>
            (0 \<le> i \<and> nat i < length (pre @ ws) \<and> 0 < (pre @ ws) ! nat i))"
  using assms
proof (induction ws arbitrary: pre tot lastGood)
  case Nil
  then show ?case by simp
next
  case (Cons val rest)
  define tot' where "tot' = js_add tot val"
  define lastGood' where "lastGood' = (if 0 < val then int (length pre) else lastGood)"
  show ?case
  proof (cases "0 < val \<and> frac_le_int sel tot'")
    case True
    then have "weighted_scan sel (val # rest) (length pre) tot lastGood = Some (int (length pre))"
      by (simp add: tot'_def)
    then show ?thesis using True by simp
  next
    case nobreak: False
    have inv: "lastGood' = - 1 \<and> lastGood = - 1 \<and> val \<le> 0 \<or>
        (0 \<le> lastGood' \<and> nat lastGood' < length (pre @ [val]) \<and> 0 < (pre @ [val]) ! nat lastGood')"
      using Cons.prems(2) by (auto simp add: lastGood'_def nth_append)
    show ?thesis
    proof (cases "rest = []")
      case True
      then have r: "weighted_scan sel (val # rest) (length pre) tot lastGood = Some lastGood'"
        using nobreak by (auto simp add: tot'_def lastGood'_def Let_def)
      from inv show ?thesis
      proof
        assume "lastGood' = - 1 \<and> lastGood = - 1 \<and> val \<le> 0"
        then show ?thesis using r True by simp
      next
        assume "0 \<le> lastGood' \<and> nat lastGood' < length (pre @ [val]) \<and> 0 < (pre @ [val]) ! nat lastGood'"
        then show ?thesis using r True by simp
      qed
    next
      case False
      then have r: "weighted_scan sel (val # rest) (length pre) tot lastGood =
          weighted_scan sel rest (length (pre @ [val])) tot' lastGood'"
        using nobreak by (auto simp add: tot'_def lastGood'_def Let_def)
      from inv have inv': "lastGood' = - 1 \<or>
        (0 \<le> lastGood' \<and> nat lastGood' < length (pre @ [val]) \<and> 0 < (pre @ [val]) ! nat lastGood')"
        by blast
      from Cons.IH [OF False inv', of tot'] obtain i
        where i: "weighted_scan sel rest (length (pre @ [val])) tot' lastGood' = Some i"
          and d: "(i = - 1 \<and> lastGood' = - 1 \<and> (\<forall>w \<in> set rest. w \<le> 0)) \<or>
            (0 \<le> i \<and> nat i < length ((pre @ [val]) @ rest) \<and> 0 < ((pre @ [val]) @ rest) ! nat i)"
        by blast
      from d show ?thesis
      proof
        assume a: "i = - 1 \<and> lastGood' = - 1 \<and> (\<forall>w \<in> set rest. w \<le> 0)"
        with inv have "lastGood = - 1 \<and> val \<le> 0" by auto
        then show ?thesis using r i a by simp
      next
        assume "0 \<le> i \<and> nat i < length ((pre @ [val]) @ rest) \<and> 0 < ((pre @ [val]) @ rest) ! nat i"
        then show ?thesis using r i by simp
      qed
    qed
  qed
qed

lemma weighted_chosen:
  assumes "length arr = length weights" "\<exists>w \<in> set weights. 0 < w"
  shows "\<exists>i < length arr. 0 < weights ! i \<and> fst (weighted arr weights trim c) = Inr (Some (arr ! i))"
proof -
  have ne: "weights \<noteq> []" using assms(2) by auto
  have s: "weighted_sum weights 0 \<noteq> 0" using weighted_sum_pos [of 0 weights] assms(2) by simp
  define sel where "sel = frac_times (fst (random c)) (weighted_sum weights 0)"
  from weighted_scan_chosen [of weights "- 1" "[]" sel 0] ne obtain i
    where i: "weighted_scan sel weights 0 0 (- 1) = Some i"
      and d: "(i = - 1 \<and> (\<forall>w \<in> set weights. w \<le> 0)) \<or>
            (0 \<le> i \<and> nat i < length weights \<and> 0 < weights ! nat i)"
    by auto
  from d assms(2) have v: "0 \<le> i" "nat i < length weights" "0 < weights ! nat i"
    by (auto simp add: not_less [symmetric])
  then have "i < int (length arr)" using assms(1) by simp
  then have "fst (weighted arr weights trim c) = Inr (Some (arr ! nat i))"
    using assms(1) s v(1) i
    by (simp add: weighted_def Let_def split_beta sel_def [symmetric])
  then show ?thesis using v assms(1) by (intro exI [of _ "nat i"]) simp
qed

lemma pickset_zero: "pickset arr (Some 0) h c = (Inr (Ref (length h)), h @ [Array []], c)"
  by (simp add: pickset_def alloc_def)

lemma pickset_empty:
  "heap_array h arr = Some [] \<Longrightarrow> cnt \<noteq> Some 0 \<Longrightarrow> pickset arr cnt h c = (Inl RangeError, h, c)"
  by (simp add: pickset_def)

lemma pickset_negative:
  "heap_array h arr = Some xs \<Longrightarrow> k < 0 \<Longrightarrow> pickset arr (Some k) h c = (Inl RangeError, h, c)"
  by (simp add: pickset_def)

lemma heap_array_nth: "heap_array h a = Some xs \<longleftrightarrow> a < length h \<and> h ! a = Array xs"
  by (auto simp add: heap_array_def split: jsobj.splits)

lemma update_array_nth:
  "heap_array h a = Some xs \<Longrightarrow> update_array h a f = h[a := Array (f xs)]"
  by (simp add: update_array_def)

lemma mset_remove_nth:
  "j < length xs \<Longrightarrow> mset (take j xs @ drop (Suc j) xs) + {#xs ! j#} = mset xs"
proof -
  assume "j < length xs"
  then have "xs = take j xs @ xs ! j # drop (Suc j) xs" by (rule id_take_nth_drop)
  then have "mset xs = mset (take j xs @ xs ! j # drop (Suc j) xs)" by simp
  then show ?thesis by simp
qed

lemma shuffle_loop_inv:
  assumes "old_array < length h" "new_array < length h" "old_array \<noteq> new_array"
    and "h ! old_array = Array os" "h ! new_array = Array ns"
    and "length os = k" "length ns = i" "k \<le> 2 ^ 32"
  shows "\<exists>h' ys. shuffle_loop k i old_array new_array h c = (Inr (Ref new_array), h', (draw ^^ k) c) \<and>
           length h' = length h \<and> h' ! new_array = Array ys \<and>
           mset ys = mset os + mset ns \<and> length ys = k + i \<and>
           (\<forall>a < length h. a \<noteq> old_array \<longrightarrow> a \<noteq> new_array \<longrightarrow> h' ! a = h ! a)"
  using assms
proof (induction k arbitrary: i h c os ns)
  case 0
  then show ?case by simp
next
  case (Suc k)
  have ao: "heap_array h old_array = Some os" using Suc.prems by (simp add: heap_array_nth)
  have an: "heap_array h new_array = Some ns" using Suc.prems by (simp add: heap_array_nth)
  have len: "array_length h old_array - 1 = int k"
    using Suc.prems by (simp add: array_length_def ao)
  have "int k < 2 ^ 32" using Suc.prems(8) by simp
  from natural_max_range [of "int k" c, OF _ this] obtain j
    where j: "natural \<lparr>opt_min = None, opt_max = Some (int k)\<rparr> c = (Inr j, draw c)"
      and j0: "0 \<le> j" and j1: "j \<le> int k" by auto
  define m where "m = nat j"
  have m: "m < length os" using j0 j1 Suc.prems(6) by (simp add: m_def)
  have jl: "j < int (length os)" using j1 Suc.prems(6) by simp
  have ld: "array_load h old_array j = os ! m"
    using j0 jl by (simp add: array_load_def ao js_nth_def m_def)
  define h1 where "h1 = h[new_array := Array (ns @ [os ! m])]"
  have u1: "update_array h new_array (\<lambda>xs. js_set xs i (os ! m)) = h1"
    using Suc.prems(7) by (simp add: update_array_nth [OF an] js_set_def h1_def)
  have ao1: "heap_array h1 old_array = Some os"
    using Suc.prems by (simp add: heap_array_nth h1_def)
  define os' where "os' = take m os @ drop (Suc m) os"
  define h2 where "h2 = h1[old_array := Array os']"
  have sp: "js_splice1 os j = os'"
    using j0 jl m by (simp add: js_splice1_def splice_start_def os'_def m_def min_def Let_def)
  have u2: "update_array h1 old_array (\<lambda>xs. js_splice1 xs j) = h2"
    by (simp add: update_array_nth [OF ao1] sp h2_def)
  have step: "shuffle_loop (Suc k) i old_array new_array h c =
      shuffle_loop k (Suc i) old_array new_array h2 (draw c)"
    by (simp add: len j ld u1 u2)
  have p1: "old_array < length h2" "new_array < length h2"
    using Suc.prems by (simp_all add: h2_def h1_def)
  have p2: "h2 ! old_array = Array os'" using Suc.prems by (simp add: h2_def h1_def)
  have p3: "h2 ! new_array = Array (ns @ [os ! m])" using Suc.prems by (simp add: h2_def h1_def)
  have p4: "length os' = k" using m Suc.prems(6) by (simp add: os'_def)
  have p5: "length (ns @ [os ! m]) = Suc i" using Suc.prems(7) by simp
  have p6: "k \<le> 2 ^ 32" using Suc.prems(8) by simp
  from Suc.IH [OF p1 Suc.prems(3) p2 p3 p4 p5 p6, of "draw c"] obtain h' ys
    where r: "shuffle_loop k (Suc i) old_array new_array h2 (draw c) = (Inr (Ref new_array), h', (draw ^^ k) (draw c))"
      and l: "length h' = length h2" and n: "h' ! new_array = Array ys"
      and ms: "mset ys = mset os' + mset (ns @ [os ! m])" and ly: "length ys = k + Suc i"
      and fr: "\<forall>a < length h2. a \<noteq> old_array \<longrightarrow> a \<noteq> new_array \<longrightarrow> h' ! a = h2 ! a"
    by blast
  have "mset os' + {#os ! m#} = mset os" unfolding os'_def using m by (rule mset_remove_nth)
  then have ms': "mset ys = mset os + mset ns" using ms by simp
  have fr': "\<forall>a < length h. a \<noteq> old_array \<longrightarrow> a \<noteq> new_array \<longrightarrow> h' ! a = h ! a"
    using fr by (simp add: h2_def h1_def)
  have "shuffle_loop (Suc k) i old_array new_array h c = (Inr (Ref new_array), h', (draw ^^ Suc k) c)"
    using step r by (simp add: funpow_swap1)
  moreover have "length h' = length h" using l by (simp add: h2_def h1_def)
  ultimately show ?case using n ms' ly fr' by (intro exI [of _ h'] exI [of _ ys]) simp
qed

lemma shuffle_result:
  assumes "heap_array h arr = Some xs" "length xs < 2 ^ 32"
  shows "\<exists>h' ys. shuffle arr h c = (Inr (Ref (Suc (length h))), h', (draw ^^ length xs) c) \<and>
           length h' = length h + 2 \<and> h' ! Suc (length h) = Array ys \<and>
           mset ys = mset xs \<and> length ys = length xs \<and>
           (\<forall>a < length h. h' ! a = h ! a)"
proof -
  define h2 where "h2 = h @ [Array xs, Array []]"
  have s: "shuffle arr h c = shuffle_loop (length xs) 0 (length h) (Suc (length h)) h2 c"
    using assms(1) by (simp add: shuffle_def alloc_def h2_def)
  have "\<exists>h' ys. shuffle_loop (length xs) 0 (length h) (Suc (length h)) h2 c
          = (Inr (Ref (Suc (length h))), h', (draw ^^ length xs) c) \<and>
           length h' = length h2 \<and> h' ! (Suc (length h)) = Array ys \<and>
           mset ys = mset xs + mset [] \<and> length ys = length xs + 0 \<and>
           (\<forall>a < length h2. a \<noteq> length h \<longrightarrow> a \<noteq> Suc (length h) \<longrightarrow> h' ! a = h2 ! a)"
    using assms(2) by (intro shuffle_loop_inv) (simp_all add: h2_def nth_append)
  then obtain h' ys
    where r: "shuffle_loop (length xs) 0 (length h) (Suc (length h)) h2 c
          = (Inr (Ref (Suc (length h))), h', (draw ^^ length xs) c)"
      and l: "length h' = length h2" and n: "h' ! (Suc (length h)) = Array ys"
      and ms: "mset ys = mset xs" and ly: "length ys = length xs"
      and fr: "\<forall>a < length h2. a \<noteq> length h \<longrightarrow> a \<noteq> Suc (length h) \<longrightarrow> h' ! a = h2 ! a"
    by auto
  have "\<forall>a < length h. h' ! a = h ! a" using fr by (simp add: h2_def nth_append)
  moreover have "length h' = length h + 2" using l by (simp add: h2_def)
  ultimately show ?thesis using s r n ms ly by (intro exI [of _ h'] exI [of _ ys]) simp
qed






















lemma copyArray_loop_copies:
  assumes "length target = length source" "i + k = length source" "take i target = take i source"
  shows "copyArray_loop k i source target = source"
  using assms
proof (induction k arbitrary: i target)
  case 0
  then show ?case by simp
next
  case (Suc k)
  have i: "i < length source" using Suc.prems(2) by simp
  define target' where "target' = target[i := source ! i]"
  have s: "js_set target i (js_nth source (int i)) = target'"
    using i Suc.prems(1) by (simp add: js_set_def js_nth_def target'_def)
  have l: "length target' = length source" using Suc.prems(1) by (simp add: target'_def)
  have "take (Suc i) target' = take i target' @ [target' ! i]"
    using i l by (simp add: take_Suc_conv_app_nth)
  also have "\<dots> = take i source @ [source ! i]"
    using i Suc.prems(1,3) by (simp add: target'_def)
  also have "\<dots> = take (Suc i) source" using i by (simp add: take_Suc_conv_app_nth)
  finally have t: "take (Suc i) target' = take (Suc i) source" .
  have "copyArray_loop k (Suc i) source target' = source"
    using l Suc.prems(2) t by (intro Suc.IH) simp_all
  then show ?case by (simp add: s)
qed

lemma prop_get_set: "prop_get (prop_set kvs key v) k = (if k = key then v else prop_get kvs k)"
  by (induction kvs) auto

lemma copyObject_loop_get:
  "prop_get (copyObject_loop keys source target) k =
     (if k \<in> set keys \<and> truthy (prop_get source k) then prop_get source k else prop_get target k)"
  by (induction keys arbitrary: target) (auto simp add: prop_get_set)

lemma prop_get_absent: "k \<notin> fst ` set kvs \<Longrightarrow> prop_get kvs k = Undefined"
  by (induction kvs) auto

lemma copyObject_array:
  assumes "a < length h" "h ! a = Array xs"
  shows "copyObject (Some a) h = (Inr (Ref (length h)), h @ [Array xs])"
proof -
  have "copyArray_loop (length xs) 0 xs (replicate (length xs) Undefined) = xs"
    by (rule copyArray_loop_copies) simp_all
  then show ?thesis
    using assms by (simp add: copyObject_def alloc_def update_array_def heap_array_def)
qed

lemma copyObject_object:
  assumes "a < length h" "h ! a = Object kvs"
  shows "copyObject (Some a) h =
           (Inr (Ref (length h)), h @ [Object (copyObject_loop (map fst kvs) kvs [])])"
  using assms by (simp add: copyObject_def alloc_def)

lemma copied_props:
  "prop_get (copyObject_loop (map fst kvs) kvs []) k =
     (if truthy (prop_get kvs k) then prop_get kvs k else Undefined)"
proof (cases "k \<in> fst ` set kvs")
  case True
  then show ?thesis by (simp add: copyObject_loop_get)
next
  case False
  then have "prop_get kvs k = Undefined" by (rule prop_get_absent)
  then show ?thesis by (simp add: copyObject_loop_get truthy_def)
qed

text \<open>The object that \<open>get\<close> allocates for a table, as a function of the table.\<close>

lemma get_copy:
  assumes "map_of data nm = Some a" "a < length h"
  shows "\<exists>ob. chance_get data nm h = (Inr (Ref (length h)), h @ [ob]) \<and>
           (\<forall>xs. h ! a = Array xs \<longrightarrow> ob = Array xs) \<and>
           (\<forall>kvs. h ! a = Object kvs \<longrightarrow>
              (\<exists>kvs'. ob = Object kvs' \<and>
                 (\<forall>k. prop_get kvs' k = (if truthy (prop_get kvs k) then prop_get kvs k else Undefined))))"
proof (cases "h ! a")
  case (Array xs)
  then show ?thesis using assms by (simp add: chance_get_def copyObject_array)
next
  case (Object kvs)
  then show ?thesis using assms by (simp add: chance_get_def copyObject_object copied_props)
qed

lemma get_again:
  assumes "map_of data nm = Some a" "a < length h" "chance_get data nm h = (Inr r, h @ [ob])"
  shows "chance_get data nm ((h @ [ob])[length h := ob']) = (Inr (Ref (Suc (length h))), h @ [ob', ob])"
proof -
  define h' where "h' = h @ [ob']"
  have e: "(h @ [ob])[length h := ob'] = h'" by (simp add: h'_def)
  have a': "a < length h'" "h' ! a = h ! a" using assms(2) by (simp_all add: h'_def nth_append)
  show ?thesis
  proof (cases "h ! a")
    case (Array xs)
    then have "ob = Array xs" using assms by (simp add: chance_get_def copyObject_array)
    moreover have "chance_get data nm h' = (Inr (Ref (length h')), h' @ [Array xs])"
      using assms(1) a' Array by (simp add: chance_get_def copyObject_array)
    ultimately show ?thesis unfolding e by (simp add: h'_def)
  next
    case (Object kvs)
    then have "ob = Object (copyObject_loop (map fst kvs) kvs [])"
      using assms by (simp add: chance_get_def copyObject_object)
    moreover have "chance_get data nm h' = (Inr (Ref (length h')), h' @ [Object (copyObject_loop (map fst kvs) kvs [])])"
      using assms(1) a' Object by (simp add: chance_get_def copyObject_object)
    ultimately show ?thesis unfolding e by (simp add: h'_def)
  qed
qed











lemma hash_ab: "hash_of 0 ''ab'' = 6363201"
  by (simp add: js_shl_def)


text \<open>
  Outside that condition the doubles round: three components \<open>2^52 + 1\<close> give the seed
  27021597764222984, two more than the exact sum.
\<close>

lemma seed_rounds:
  "combine_seed [SeedNumber 4503599627370497, SeedNumber 4503599627370497, SeedNumber 4503599627370497]
     = Some 27021597764222984"
  "seed_sum string_seedling
     [SeedNumber 4503599627370497, SeedNumber 4503599627370497, SeedNumber 4503599627370497]
     = 27021597764222982"
  "\<not> exact_seed [SeedNumber 4503599627370497, SeedNumber 4503599627370497, SeedNumber 4503599627370497]"
proof -
  show "combine_seed [SeedNumber 4503599627370497, SeedNumber 4503599627370497, SeedNumber 4503599627370497]
     = Some 27021597764222984"
    by code_simp
  show "seed_sum string_seedling
     [SeedNumber 4503599627370497, SeedNumber 4503599627370497, SeedNumber 4503599627370497]
     = 27021597764222982"
    by (simp add: seed_sum_def string_seedling_def lessThan_Suc numeral_3_eq_3)
  show "\<not> exact_seed [SeedNumber 4503599627370497, SeedNumber 4503599627370497, SeedNumber 4503599627370497]"
    by (simp add: exact_seed_def string_seedling_def)
qed





text \<open>
  A call other than \<open>set\<close> leaves the table as it was, so instances that run one after
  the other without a \<open>set\<close> in between read the same table.
\<close>

lemma run_keeps_table: "\<not> sets_table cl \<Longrightarrow> fst (snd (run y cl w)) = fst w"
  by (cases cl) (simp_all add: run_def sets_table_def Let_def split: prod.splits sum.splits option.splits)

lemma run_calls_keep_table:
  "\<forall>cl \<in> set calls. \<not> sets_table cl \<Longrightarrow> fst (snd (run_calls y calls w)) = fst w"
proof (induction calls arbitrary: w)
  case Nil
  then show ?case by simp
next
  case (Cons cl calls)
  obtain out w' where r: "run y cl w = (out, w')" by (cases "run y cl w")
  obtain outs w'' where rs: "run_calls y calls w' = (outs, w'')" by (cases "run_calls y calls w'")
  have "fst w' = fst w" using run_keeps_table [of cl y w] Cons.prems r by simp
  moreover have "fst w'' = fst w'" using Cons.IH [of w'] Cons.prems rs by simp
  ultimately show ?case using r rs by simp
qed

text \<open>
  The table is shared state: \<open>cc({type: "t"})\<close> needs no draw when the table leaves one
  digit to the Luhn formula, and answers 42 from \<open>table4\<close> and 59 once a \<open>set\<close> has put
  \<open>table5\<close> in its place, whatever the instance.
\<close>

lemma cc_reads_shared_table:
  "fst (run_calls y [Call_cc (Some ''t'')] (table4, h, c)) = [Out_string ''42'']"
  "fst (run_calls y [Call_cc (Some ''t'')] (fst (snd (run_calls y [Call_set_cc_types table5] (table4, h, c0))), h, c))
     = [Out_string ''59'']"
  by (simp_all add: run_def cc_from_def cc_type_def table4_def table5_def chance_n_def
      luhn_calculate_def Number_toString_def nat_digits.simps digit_char_def digit_value_def
      char_of_eq_iff Let_def)



section \<open>The claims\<close>

subsection \<open>C1: determinism\<close>




subsection \<open>C2: combining the seed components\<close>




subsection \<open>C3: seeding the state vector\<close>

text \<open>
  C3, as amended: \<open>init_genrand\<close> fills 624 entries; entry 0 is the seed reduced to 32
  bits, and every entry \<open>i\<close> from 1 to 623 is 1812433253 times
  \<open>state[i-1] xor (state[i-1] >> 30)\<close> plus \<open>i\<close>, in 32-bit arithmetic: the index is
  added, not xor-ed.
\<close>

theorem init_genrand_state:
  "length (mt (init_genrand s)) = 624 \<and>
   mt (init_genrand s) ! 0 = word_of_int s \<and>
   (\<forall>i \<in> {1..623}.
      mt (init_genrand s) ! i =
        1812433253 * (mt (init_genrand s) ! (i - 1) XOR drop_bit 30 (mt (init_genrand s) ! (i - 1)))
          + word_of_nat i)"
proof (intro conjI ballI)
  show "length (mt (init_genrand s)) = 624" by (rule init_genrand_entries(1))
  show "mt (init_genrand s) ! 0 = word_of_int s"
    by (simp add: init_genrand_entries(3) ToUint32_def)
next
  fix i :: nat
  assume "i \<in> {1..623}"
  then have i: "0 < i" "i < 624" "i < 2 ^ 32" by simp_all
  show "mt (init_genrand s) ! i =
        1812433253 * (mt (init_genrand s) ! (i - 1) XOR drop_bit 30 (mt (init_genrand s) ! (i - 1)))
          + word_of_nat i"
    using init_genrand_entries(4) [OF i(1) i(2)] init_genrand_step_word [OF i(3)] by simp
qed

theorem init_genrand_state_witness:
  "(1::nat) \<in> {1..623} \<and> mt (init_genrand 1) ! 0 = 1 \<and> mt (init_genrand 1) ! 1 = 1812433254"
proof -
  have m: "(1::nat) \<in> {1..623}" by simp
  from init_genrand_state [of 1]
  have z: "mt (init_genrand 1) ! 0 = word_of_int 1"
    and r: "\<forall>i \<in> {1..623}. mt (init_genrand 1) ! i =
        1812433253 * (mt (init_genrand 1) ! (i - 1) XOR drop_bit 30 (mt (init_genrand 1) ! (i - 1)))
          + word_of_nat i"
    by blast+
  from bspec [OF r m] z have "mt (init_genrand 1) ! 1 = 1812433254" by simp
  with m z show ?thesis by simp
qed

text \<open>
  C3 as stated (the index combined by xor) fails for seed 1 at index 1: the entry is
  1812433254, and 1812433253 xor 1 is 1812433252.
\<close>

theorem init_genrand_xor_counterexample:
  "mt (init_genrand 1) ! 1 \<noteq>
     (1812433253 * (mt (init_genrand 1) ! 0 XOR drop_bit 30 (mt (init_genrand 1) ! 0))) XOR 1"
proof -
  have z: "mt (init_genrand 1) ! 0 = 1" by (simp add: init_genrand_entries(3) ToUint32_def)
  have "mt (init_genrand 1) ! 1 = 1812433254"
    using init_genrand_entries(4) [of 1 1] by (simp add: z init_genrand_step_word)
  then show ?thesis by (simp add: z)
qed

subsection \<open>C4: the range of integer\<close>

text \<open>
  C4 says that \<open>integer({min, max})\<close> lies in the inclusive range from \<open>min\<close> to
  \<open>max\<close> whenever \<open>min \<le> max\<close>. For the generator seeded with 5489, whose first draw
  is 3499211612, and the bounds \<open>2^52\<close> and \<open>2^52 + 1\<close>, the method returns
  \<open>2^52 + 2\<close>: the sum \<open>random() * 2 + min\<close> is not a double and is rounded up
  before \<open>Math.floor\<close> sees it.
\<close>

theorem integer_exceeds_max:
  "fst (integer \<lparr>opt_min = Some 4503599627370496, opt_max = Some 4503599627370497\<rparr>
         (new_Chance 0 [SeedNumber 5489])) = Inr 4503599627370498"
proof -
  have s1: "js_sub 4503599627370497 4503599627370496 = 1"
    by (simp add: js_sub_def round53_exact)
  have s2: "js_add 1 1 = 2" by (simp add: js_add_def round53_exact)
  have s3: "frac_times 3499211612 2 = 6998423224" by (simp add: frac_times_def round53_exact)
  have s4: "frac_plus 6998423224 4503599627370496 = 19342813113834075385233408"
    by (simp add: frac_plus_def round53_example)
  show ?thesis
    by (simp add: integer_split random_5489 s1 s2 s3 s4 Math_floor_def)
qed

subsection \<open>C5: the numbers of cc pass luhn_check\<close>



subsection \<open>C6: shuffle returns a permutation and leaves its argument alone\<close>

text \<open>
  C6: for an array \<open>arr\<close> in the store (of fewer than \<open>2^32\<close> elements, as every
  JavaScript array), \<open>shuffle(arr)\<close> returns a new array, at an address that was not in
  use, whose elements are a permutation of those of \<open>arr\<close>; every object that was in the
  store before the call, \<open>arr\<close> itself among them, is unchanged after it.
\<close>

theorem shuffle_permutation:
  "heap_array h arr = Some xs \<and> length xs < 2 ^ 32 \<longrightarrow>
   (\<exists>new_array h' c' ys.
      shuffle arr h c = (Inr (Ref new_array), h', c') \<and>
      length h \<le> new_array \<and> heap_array h' new_array = Some ys \<and>
      mset ys = mset xs \<and> length ys = length xs \<and>
      (\<forall>a < length h. h' ! a = h ! a) \<and> heap_array h' arr = Some xs)"
proof
  assume a: "heap_array h arr = Some xs \<and> length xs < 2 ^ 32"
  then have arr: "arr < length h" "h ! arr = Array xs" by (simp_all add: heap_array_nth)
  from a shuffle_result [of h arr xs c] obtain h' ys
    where r: "shuffle arr h c = (Inr (Ref (Suc (length h))), h', (draw ^^ length xs) c)"
      and l: "length h' = length h + 2" and n: "h' ! Suc (length h) = Array ys"
      and ms: "mset ys = mset xs" and ly: "length ys = length xs"
      and fr: "\<forall>a < length h. h' ! a = h ! a"
    by blast
  have "heap_array h' (Suc (length h)) = Some ys" using l n by (simp add: heap_array_nth)
  moreover have "heap_array h' arr = Some xs" using arr fr l by (simp add: heap_array_nth)
  ultimately show "\<exists>new_array h' c' ys.
      shuffle arr h c = (Inr (Ref new_array), h', c') \<and>
      length h \<le> new_array \<and> heap_array h' new_array = Some ys \<and>
      mset ys = mset xs \<and> length ys = length xs \<and>
      (\<forall>a < length h. h' ! a = h ! a) \<and> heap_array h' arr = Some xs"
    using r ms ly fr
    by (intro exI [of _ "Suc (length h)"] exI [of _ h'] exI [of _ "(draw ^^ length xs) c"] exI [of _ ys]) simp
qed

theorem shuffle_permutation_witness:
  "\<exists>new_array h' c' ys.
      shuffle 0 [Array [Num 1, Num 2, Num 3]] (new_Chance 0 [SeedNumber 42]) = (Inr (Ref new_array), h', c') \<and>
      1 \<le> new_array \<and> heap_array h' new_array = Some ys \<and>
      mset ys = {#Num 1, Num 2, Num 3#} \<and> length ys = 3 \<and>
      h' ! 0 = Array [Num 1, Num 2, Num 3]"
proof -
  have h: "heap_array [Array [Num 1, Num 2, Num 3]] 0 = Some [Num 1, Num 2, Num 3] \<and>
      length [Num 1, Num 2, Num 3] < (2::nat) ^ 32"
    by (simp add: heap_array_def)
  from shuffle_permutation [of "[Array [Num 1, Num 2, Num 3]]" 0 "[Num 1, Num 2, Num 3]" "new_Chance 0 [SeedNumber 42]"] h
  obtain new_array h' c' ys where
      "shuffle 0 [Array [Num 1, Num 2, Num 3]] (new_Chance 0 [SeedNumber 42]) = (Inr (Ref new_array), h', c')"
      "length [Array [Num 1, Num 2, Num 3]] \<le> new_array" "heap_array h' new_array = Some ys"
      "mset ys = mset [Num 1, Num 2, Num 3]" "length ys = length [Num 1, Num 2, Num 3]"
      "\<forall>a < length [Array [Num 1, Num 2, Num 3]]. h' ! a = [Array [Num 1, Num 2, Num 3]] ! a"
    by blast
  then show ?thesis
    by (intro exI [of _ new_array] exI [of _ h'] exI [of _ c'] exI [of _ ys]) simp
qed

subsection \<open>C7: weighted never selects a weight that is not positive\<close>

text \<open>
  C7: when the array and the weights have the same length and some weight is positive,
  \<open>weighted\<close> returns, for every state of the engine, an element whose weight is
  positive; so \<open>weighted(['a','b'], [0,1])\<close> is always \<open>'b'\<close>.
\<close>

theorem weighted_never_selects_nonpositive:
  "(length arr = length weights \<and> (\<exists>w \<in> set weights. 0 < w) \<longrightarrow>
      (\<exists>i < length arr. 0 < weights ! i \<and>
         fst (weighted arr weights False c) = Inr (Some (arr ! i)))) \<and>
   fst (weighted [''a'', ''b''] [0, 1] False c) = Inr (Some ''b'')"
proof
  show "length arr = length weights \<and> (\<exists>w \<in> set weights. 0 < w) \<longrightarrow>
      (\<exists>i < length arr. 0 < weights ! i \<and>
         fst (weighted arr weights False c) = Inr (Some (arr ! i)))"
    using weighted_chosen by blast
  have "\<exists>i < length [''a'', ''b'']. 0 < [0, 1 :: int] ! i \<and>
      fst (weighted [''a'', ''b''] [0, 1] False c) = Inr (Some ([''a'', ''b''] ! i))"
    by (rule weighted_chosen) simp_all
  then obtain i where i: "i < length [''a'', ''b'']" "0 < [0, 1 :: int] ! i"
      and r: "fst (weighted [''a'', ''b''] [0, 1] False c) = Inr (Some ([''a'', ''b''] ! i))"
    by blast
  from i have "i = 1" by (cases i) simp_all
  with r show "fst (weighted [''a'', ''b''] [0, 1] False c) = Inr (Some ''b'')" by simp
qed

theorem weighted_witness:
  "fst (weighted [''x'', ''y'', ''z''] [0, 3, - 2] False (new_Chance 0 [SeedNumber 42])) = Inr (Some ''y'')"
proof -
  have h: "length [''x'', ''y'', ''z''] = length [0, 3, - 2 :: int] \<and> (\<exists>w \<in> set [0, 3, - 2 :: int]. 0 < w)"
    by simp
  from weighted_never_selects_nonpositive [of "[''x'', ''y'', ''z'']" "[0, 3, - 2]" "new_Chance 0 [SeedNumber 42]"] h
  have "\<exists>i < length [''x'', ''y'', ''z'']. 0 < [0, 3, - 2 :: int] ! i \<and>
      fst (weighted [''x'', ''y'', ''z''] [0, 3, - 2] False (new_Chance 0 [SeedNumber 42]))
        = Inr (Some ([''x'', ''y'', ''z''] ! i))"
    by blast
  then obtain i where i: "i < length [''x'', ''y'', ''z'']" "0 < [0, 3, - 2 :: int] ! i"
    and r: "fst (weighted [''x'', ''y'', ''z''] [0, 3, - 2] False (new_Chance 0 [SeedNumber 42]))
        = Inr (Some ([''x'', ''y'', ''z''] ! i))"
    by blast
  from i have "i = 1" by (cases i; cases "i - 1") auto
  with r show ?thesis by simp
qed

subsection \<open>C8: the range errors of pickset\<close>

text \<open>
  C8: \<open>pickset\<close> with count 0 returns a new empty array, whatever the source array is;
  on an empty array with any other count, and on any array with a negative count, it
  raises a RangeError and changes neither the store nor the engine.
\<close>

theorem pickset_range_errors:
  "pickset arr (Some 0) h c = (Inr (Ref (length h)), h @ [Array []], c) \<and>
   (heap_array h arr = Some [] \<and> cnt \<noteq> Some 0 \<longrightarrow>
      pickset arr cnt h c = (Inl RangeError, h, c)) \<and>
   (\<forall>xs k. heap_array h arr = Some xs \<and> k < 0 \<longrightarrow>
      pickset arr (Some k) h c = (Inl RangeError, h, c))"
  using pickset_zero pickset_empty pickset_negative by blast

theorem pickset_range_errors_witness:
  "pickset 0 (Some 2) [Array []] (new_Chance 0 [SeedNumber 42])
     = (Inl RangeError, [Array []], new_Chance 0 [SeedNumber 42]) \<and>
   pickset 0 (Some (- 1)) [Array [Str ''a'']] (new_Chance 0 [SeedNumber 42])
     = (Inl RangeError, [Array [Str ''a'']], new_Chance 0 [SeedNumber 42]) \<and>
   pickset 0 (Some 0) [Array [Str ''a'']] (new_Chance 0 [SeedNumber 42])
     = (Inr (Ref 1), [Array [Str ''a''], Array []], new_Chance 0 [SeedNumber 42])"
proof -
  let ?c = "new_Chance 0 [SeedNumber 42]"
  have e: "heap_array [Array []] 0 = Some [] \<and> Some (2::int) \<noteq> Some 0"
    by (simp add: heap_array_def)
  have n: "heap_array [Array [Str ''a'']] 0 = Some [Str ''a''] \<and> (- 1 :: int) < 0"
    by (simp add: heap_array_def)
  from pickset_range_errors [of 0 "[Array []]" ?c "Some 2"] e
  have 1: "pickset 0 (Some 2) [Array []] ?c = (Inl RangeError, [Array []], ?c)" by blast
  from pickset_range_errors [of 0 "[Array [Str ''a'']]" ?c] n
  have 2: "pickset 0 (Some (- 1)) [Array [Str ''a'']] ?c = (Inl RangeError, [Array [Str ''a'']], ?c)"
    by blast
  from pickset_range_errors [of 0 "[Array [Str ''a'']]" ?c]
  have 3: "pickset 0 (Some 0) [Array [Str ''a'']] ?c = (Inr (Ref 1), [Array [Str ''a''], Array []], ?c)"
    by simp
  from 1 2 3 show ?thesis by blast
qed

subsection \<open>C9: what get copies\<close>

text \<open>
  C9, as amended: for a table in the store, \<open>get\<close> allocates a new array or object, one
  level deep: an array table is copied element by element, and the copy of an object
  table has every property of the table whose value is truthy. Nothing that was in the
  store is changed, and whatever the caller then stores in the returned array or object,
  the table is as it was and the next \<open>get\<close> returns an equal copy. Arrays and objects
  nested inside the table are not copied.
\<close>

theorem get_returns_shallow_copy:
  "map_of data nm = Some a \<and> a < length h \<longrightarrow>
   (\<exists>ob. chance_get data nm h = (Inr (Ref (length h)), h @ [ob]) \<and>
      (\<forall>xs. h ! a = Array xs \<longrightarrow> ob = Array xs) \<and>
      (\<forall>kvs. h ! a = Object kvs \<longrightarrow>
         (\<exists>kvs'. ob = Object kvs' \<and>
            (\<forall>k. truthy (prop_get kvs k) \<longrightarrow> prop_get kvs' k = prop_get kvs k))) \<and>
      (\<forall>ob'. ((h @ [ob])[length h := ob']) ! a = h ! a \<and>
         chance_get data nm ((h @ [ob])[length h := ob'])
           = (Inr (Ref (Suc (length h))), h @ [ob', ob])))"
proof
  assume a: "map_of data nm = Some a \<and> a < length h"
  then have a1: "map_of data nm = Some a" and a2: "a < length h" by simp_all
  from get_copy [OF a1 a2] obtain ob where g: "chance_get data nm h = (Inr (Ref (length h)), h @ [ob]) \<and>
      (\<forall>xs. h ! a = Array xs \<longrightarrow> ob = Array xs) \<and>
      (\<forall>kvs. h ! a = Object kvs \<longrightarrow>
         (\<exists>kvs'. ob = Object kvs' \<and>
            (\<forall>k. prop_get kvs' k = (if truthy (prop_get kvs k) then prop_get kvs k else Undefined))))" ..
  then have ob: "chance_get data nm h = (Inr (Ref (length h)), h @ [ob])" by (rule conjunct1)
  note arr = g [THEN conjunct2, THEN conjunct1]
  note obj = g [THEN conjunct2, THEN conjunct2]
  have obj': "\<forall>kvs. h ! a = Object kvs \<longrightarrow>
         (\<exists>kvs'. ob = Object kvs' \<and>
            (\<forall>k. truthy (prop_get kvs k) \<longrightarrow> prop_get kvs' k = prop_get kvs k))"
  proof (intro allI impI)
    fix kvs
    assume "h ! a = Object kvs"
    with obj obtain kvs' where k: "ob = Object kvs'"
      "\<forall>k. prop_get kvs' k = (if truthy (prop_get kvs k) then prop_get kvs k else Undefined)"
      by blast
    from k(2) have "\<forall>k. truthy (prop_get kvs k) \<longrightarrow> prop_get kvs' k = prop_get kvs k" by simp
    with k(1) show "\<exists>kvs'. ob = Object kvs' \<and>
            (\<forall>k. truthy (prop_get kvs k) \<longrightarrow> prop_get kvs' k = prop_get kvs k)" by blast
  qed
  have f: "\<forall>ob'. ((h @ [ob])[length h := ob']) ! a = h ! a \<and>
         chance_get data nm ((h @ [ob])[length h := ob'])
           = (Inr (Ref (Suc (length h))), h @ [ob', ob])"
    using a2 get_again [OF a1 a2 ob] by (simp add: nth_append)
  show "\<exists>ob. chance_get data nm h = (Inr (Ref (length h)), h @ [ob]) \<and>
      (\<forall>xs. h ! a = Array xs \<longrightarrow> ob = Array xs) \<and>
      (\<forall>kvs. h ! a = Object kvs \<longrightarrow>
         (\<exists>kvs'. ob = Object kvs' \<and>
            (\<forall>k. truthy (prop_get kvs k) \<longrightarrow> prop_get kvs' k = prop_get kvs k))) \<and>
      (\<forall>ob'. ((h @ [ob])[length h := ob']) ! a = h ! a \<and>
         chance_get data nm ((h @ [ob])[length h := ob'])
           = (Inr (Ref (Suc (length h))), h @ [ob', ob]))"
    by (intro exI [of _ ob] conjI) (rule ob arr obj' f)+
qed

theorem get_returns_shallow_copy_witness:
  "chance_get [(''months'', 0)] ''months'' [Array [Str ''January'', Str ''February'']]
     = (Inr (Ref 1), [Array [Str ''January'', Str ''February''], Array [Str ''January'', Str ''February'']]) \<and>
   chance_get [(''months'', 0)] ''months'' [Array [Str ''January'', Str ''February''], Array []]
     = (Inr (Ref 2), [Array [Str ''January'', Str ''February''], Array [],
          Array [Str ''January'', Str ''February'']])"
proof -
  let ?h = "[Array [Str ''January'', Str ''February'']]"
  have h: "map_of [(''months'', 0)] ''months'' = Some (0::nat) \<and> 0 < length ?h" by simp
  from get_returns_shallow_copy [of "[(''months'', 0)]" "''months''" 0 ?h, THEN mp, OF h]
  obtain ob where g: "chance_get [(''months'', 0)] ''months'' ?h = (Inr (Ref (length ?h)), ?h @ [ob]) \<and>
      (\<forall>xs. ?h ! 0 = Array xs \<longrightarrow> ob = Array xs) \<and>
      (\<forall>kvs. ?h ! 0 = Object kvs \<longrightarrow>
         (\<exists>kvs'. ob = Object kvs' \<and>
            (\<forall>k. truthy (prop_get kvs k) \<longrightarrow> prop_get kvs' k = prop_get kvs k))) \<and>
      (\<forall>ob'. ((?h @ [ob])[length ?h := ob']) ! 0 = ?h ! 0 \<and>
         chance_get [(''months'', 0)] ''months'' ((?h @ [ob])[length ?h := ob'])
           = (Inr (Ref (Suc (length ?h))), ?h @ [ob', ob]))" ..
  note 1 = g [THEN conjunct1]
  note 2 = g [THEN conjunct2, THEN conjunct1]
  note 3 = g [THEN conjunct2, THEN conjunct2, THEN conjunct2]
  from 2 have ob: "ob = Array [Str ''January'', Str ''February'']" by simp
  from 3 [THEN spec, of "Array []"]
  have "chance_get [(''months'', 0)] ''months'' ((?h @ [ob])[length ?h := Array []])
           = (Inr (Ref (Suc (length ?h))), ?h @ [Array [], ob])" by (rule conjunct2)
  with 1 ob show ?thesis by simp
qed

text \<open>
  C9 as stated (a deep copy, so that no change made through the returned value reaches
  the table) fails for a table of records: the caller gets a new array holding the same
  record, renames the record through it, and the next \<open>get\<close> returns the renamed record.
\<close>

theorem get_deep_copy_counterexample:
  "chance_get [(''cc_types'', 0)] ''cc_types'' [Array [Ref 1], Object [(''name'', Str ''Visa'')]]
     = (Inr (Ref 2), [Array [Ref 1], Object [(''name'', Str ''Visa'')], Array [Ref 1]]) \<and>
   assign_prop [Array [Ref 1], Object [(''name'', Str ''Visa'')], Array [Ref 1]]
       (array_load [Array [Ref 1], Object [(''name'', Str ''Visa'')], Array [Ref 1]] 2 0)
       ''name'' (Str ''X'')
     = [Array [Ref 1], Object [(''name'', Str ''X'')], Array [Ref 1]] \<and>
   chance_get [(''cc_types'', 0)] ''cc_types'' [Array [Ref 1], Object [(''name'', Str ''X'')], Array [Ref 1]]
     = (Inr (Ref 3), [Array [Ref 1], Object [(''name'', Str ''X'')], Array [Ref 1], Array [Ref 1]]) \<and>
   contents_of 2 [Array [Ref 1], Object [(''name'', Str ''X'')], Array [Ref 1], Array [Ref 1]] (Ref 3)
     \<noteq> contents_of 2 [Array [Ref 1], Object [(''name'', Str ''Visa'')], Array [Ref 1]] (Ref 2)"
  by (simp add: chance_get_def copyObject_array assign_prop_def array_load_def heap_array_def
      js_nth_def numeral_2_eq_2)

subsection \<open>C10: the draws of string\<close>

text \<open>
  C10: every call of \<open>string\<close> draws from the engine at least once, the default length
  coming first whatever the options are; and with an explicit length \<open>L \<ge> 0\<close> (and
  options that \<open>character\<close> accepts) the call returns a string and leaves the engine
  where \<open>L + 1\<close> draws take it.
\<close>

theorem string_draws:
  "(\<exists>k. snd (chance_string options c) = (draw ^^ Suc k) c) \<and>
   (\<forall>L. str_length options = Some L \<and> 0 \<le> L \<and> \<not> (alpha options \<and> symbols options) \<longrightarrow>
      (\<exists>text. chance_string options c = (Inr text, (draw ^^ nat (L + 1)) c)))"
  using string_always_draws string_length_draws by blast

theorem string_draws_witness:
  "\<exists>text. chance_string
      \<lparr>pool = None, alpha = False, symbols = False, casing = AnyCase, str_length = Some 3\<rparr>
      (new_Chance 0 [SeedNumber 42])
    = (Inr text, (draw ^^ 4) (new_Chance 0 [SeedNumber 42]))"
proof -
  let ?o = "\<lparr>pool = None, alpha = False, symbols = False, casing = AnyCase, str_length = Some 3\<rparr>"
  have h: "str_length ?o = Some 3 \<and> (0::int) \<le> 3 \<and> \<not> (alpha ?o \<and> symbols ?o)" by simp
  have e: "nat (3 + 1) = 4" by simp
  from string_draws [of ?o "new_Chance 0 [SeedNumber 42]"] h
  have "\<exists>text. chance_string ?o (new_Chance 0 [SeedNumber 42])
      = (Inr text, (draw ^^ nat (3 + 1)) (new_Chance 0 [SeedNumber 42]))" by blast
  then show ?thesis unfolding e .
qed

end
